theory Spec2Isabelle
  imports Main
begin

section \<open>Limits and fixed byte sequences (texttable.h, texttable.c)\<close>

text \<open>
  The three compile-time limits of \<^verbatim>\<open>texttable.h\<close> and the closing ANSI tag of
  \<^verbatim>\<open>texttable.c\<close>. All \<^verbatim>\<open>size_t\<close> quantities are modelled as natural numbers:
  the cell text is capped at 96 bytes and a retained ANSI sequence is shorter than 24, so
  the sums the library computes stay far below the range of \<^verbatim>\<open>size_t\<close> unless
  \<^verbatim>\<open>spacesBetweenBorder\<close> is set to an astronomically large value.
\<close>

definition TEXT_TABLE_MAX_COLUMN_LEN :: nat where
  "TEXT_TABLE_MAX_COLUMN_LEN = 96"

definition TEXT_TABLE_MAX_X_POS :: nat where
  "TEXT_TABLE_MAX_X_POS = 30"

definition TEXT_TABLE_MAX_ANSI_SEQ_LEN :: nat where
  "TEXT_TABLE_MAX_ANSI_SEQ_LEN = 24"

definition NUL :: char where
  "NUL = CHR 0x00"

definition LF :: char where
  "LF = CHR 0x0A"

definition SPC :: char where
  "SPC = CHR 0x20"

definition sAnsiSequenceEnd :: string where
  "sAnsiSequenceEnd = [CHR 0x1B, CHR ''['', CHR ''0'', CHR ''m'']"

section \<open>C strings, allocation, faults\<close>

text \<open>
  A \<^verbatim>\<open>const char *\<close> argument is a byte list; the C string it denotes ends before the
  first NUL byte. \<open>strlen\<close> counts the bytes of that string.
\<close>

definition c_str :: "string \<Rightarrow> string" where
  "c_str s = takeWhile (\<lambda>c. c \<noteq> NUL) s"

definition strlen :: "string \<Rightarrow> nat" where
  "strlen s = length (c_str s)"

text \<open>
  \<^verbatim>\<open>vsnprintf(NULL, 0, format, ...)\<close> returns the number of bytes the formatted text has,
  as an \<^verbatim>\<open>int\<close>; a text longer than \<^verbatim>\<open>INT_MAX\<close> makes it return a negative value.
  The formatted text itself is the input of the model (printf-style formatting is done by
  the C library, not by this repository).
\<close>

definition vsnprintf_len :: "string \<Rightarrow> int" where
  "vsnprintf_len s = (if int (length s) \<le> 2147483647 then int (length s) else - 1)"

text \<open>
  \<^verbatim>\<open>malloc\<close> may fail. The outcomes of the calls a function makes are given in call order
  by a list of booleans; once the list is used up every further call succeeds.
\<close>

fun malloc :: "bool list \<Rightarrow> bool \<times> bool list" where
  "malloc [] = (True, [])"
| "malloc (ok # rest) = (ok, rest)"

text \<open>
  Undefined behaviour of the C code is a fault of the model: a write through a null pointer
  (the unchecked allocation of the ANSI sequence copy), a read through a null pointer (an
  entry list shorter than the entry count) and a write behind the end of the row buffer.
\<close>

datatype fault = NullPointerWrite | NullPointerRead | BufferOverflow

section \<open>The data model (texttable.h)\<close>

text \<open>
  One table entry. The \<^verbatim>\<open>nextEntry\<close>/\<^verbatim>\<open>prevEntry\<close> links are the order of the list
  that holds the entries. \<open>text'\<close> is the field \<^verbatim>\<open>text\<close>: \<open>None\<close> is the null pointer,
  \<open>Some bs\<close> a buffer holding the bytes \<open>bs\<close> followed by NUL. The write pointer
  \<open>writeTxt\<close> points into that buffer; it is modelled by the bytes from its position up
  to the terminating NUL.
\<close>

record TextTableEntry_t =
  text' :: "string option"
  textLen :: nat
  rowMaxTextLen :: nat
  ansiSeq :: "string option"
  ansiSeqLen :: nat
  writeTxt :: "string option"

text \<open>
  The table. \<open>head\<close> is the list of entries reached from \<^verbatim>\<open>head\<close> along
  \<^verbatim>\<open>nextEntry\<close> (\<^verbatim>\<open>tail\<close> is its last element).
\<close>

record TextTable_t =
  head :: "TextTableEntry_t list"
  entries :: nat
  charGridX :: char
  charGridBoundary :: char
  charGridSeparator :: char
  charHeadX :: char
  charHeadBoundary :: char
  charHeadSeparator :: char
  charConnectorXY :: char
  spacesBetweenBorder :: nat

datatype TabStyle_e =
    TABSTYLE_REGULAR_HEAD_ON
  | TABSTYLE_REGULAR_HEAD_OFF
  | TABSTYLE_SEPARATED_HEAD_ON
  | TABSTYLE_SEPARATED_HEAD_OFF
  | TABSTYLE_COMACT

text \<open>Internal use: the per-column maxima computed by a render call.\<close>

record T_Column =
  col_rowMaxTextLen :: nat
  col_ansiSeqMaxLen :: nat

section \<open>TextTableInit\<close>

text \<open>
  A table pointer is an option: \<open>None\<close> is \<^verbatim>\<open>NULL\<close>. The function overwrites every
  field of the table it is given.
\<close>

definition TextTableInit :: "TextTable_t option \<Rightarrow> bool \<times> TextTable_t option" where
  "TextTableInit table =
     (case table of
        Some t \<Rightarrow>
          (True, Some \<lparr>head = [], entries = 0,
                       charGridX = CHR ''-'', charGridBoundary = CHR ''|'',
                       charGridSeparator = CHR ''|'', charHeadX = CHR ''='',
                       charHeadBoundary = CHR ''|'', charHeadSeparator = CHR ''|'',
                       charConnectorXY = CHR ''+'', spacesBetweenBorder = 1\<rparr>)
      | None \<Rightarrow> (False, None))"

section \<open>TextTableAdd\<close>

text \<open>\<^verbatim>\<open>memset(pEntry, 0, sizeof(TextTableEntry_t))\<close>.\<close>

definition zero_entry :: TextTableEntry_t where
  "zero_entry = \<lparr>text' = None, textLen = 0, rowMaxTextLen = 0,
                  ansiSeq = None, ansiSeqLen = 0, writeTxt = None\<rparr>"

text \<open>
  The loop that computes the maximum length of a column row: the state is
  \<^verbatim>\<open>pEntry->rowMaxTextLen\<close> and \<^verbatim>\<open>rowTextLen\<close>, the list is the bytes
  \<^verbatim>\<open>text[i]\<close> for \<^verbatim>\<open>i < textLen\<close> still to be read.
\<close>

fun rowMax_loop :: "string \<Rightarrow> nat \<Rightarrow> nat \<Rightarrow> nat \<times> nat" where
  "rowMax_loop [] rowMax rowTextLen = (rowMax, rowTextLen)"
| "rowMax_loop (c # cs) rowMax rowTextLen =
     (if c = LF
      then rowMax_loop cs (if rowMax < rowTextLen then rowTextLen else rowMax) 0
      else rowMax_loop cs rowMax (rowTextLen + 1))"

definition calc_rowMaxTextLen :: "string \<Rightarrow> nat" where
  "calc_rowMaxTextLen txt =
     (case rowMax_loop txt 1 0 of
        (rowMax, rowTextLen) \<Rightarrow> if rowMax < rowTextLen then rowTextLen else rowMax)"

text \<open>
  \<open>TextTableAdd table ansiSeq format ms\<close>: \<open>format\<close> is the formatted text (\<open>None\<close> for a
  null \<^verbatim>\<open>format\<close>), \<open>ms\<close> the outcomes of the calls of \<^verbatim>\<open>malloc\<close>. The result is a
  fault, or the return value and the table after the call. The new entry is linked to the
  list and counted before it is filled, so every return after the first allocation leaves
  it in the table. The second \<^verbatim>\<open>vsnprintf\<close> writes the first \<^verbatim>\<open>textLen\<close> bytes of the
  text and returns the same positive length as the first.
\<close>

definition TextTableAdd ::
  "TextTable_t option \<Rightarrow> string option \<Rightarrow> string option \<Rightarrow> bool list
     \<Rightarrow> fault + (bool \<times> TextTable_t option)" where
  "TextTableAdd table ansi format ms =
     (case table of
        None \<Rightarrow> Inr (False, None)
      | Some t \<Rightarrow>
         (case malloc ms of
            (False, ms1) \<Rightarrow> Inr (False, Some t)
          | (True, ms1) \<Rightarrow>
             (let link = (\<lambda>pEntry. Some (t\<lparr>head := head t @ [pEntry],
                                             entries := entries t + 1\<rparr>));
                  pEntry = zero_entry
              in case format of
                   None \<Rightarrow> Inr (True, link pEntry)
                 | Some s \<Rightarrow>
                    (let n = vsnprintf_len s in
                     if n > 0 then
                       (let e1 = pEntry\<lparr>textLen := nat n\<rparr>;
                            r2 = (case ansi of
                                    None \<Rightarrow> Inr (e1, ms1)
                                  | Some a \<Rightarrow>
                                     (let e1a = e1\<lparr>ansiSeqLen := strlen a\<rparr> in
                                      if TEXT_TABLE_MAX_ANSI_SEQ_LEN > ansiSeqLen e1a then
                                        (case malloc ms1 of
                                           (True, ms2) \<Rightarrow>
                                             Inr (e1a\<lparr>ansiSeq := Some (c_str a)\<rparr>, ms2)
                                         | (False, ms2) \<Rightarrow> Inl NullPointerWrite)
                                      else Inr (e1a\<lparr>ansiSeqLen := 0\<rparr>, ms1)))
                        in case r2 of
                             Inl f \<Rightarrow> Inl f
                           | Inr (e2, ms2) \<Rightarrow>
                              (let e3 = (if TEXT_TABLE_MAX_COLUMN_LEN < textLen e2
                                         then e2\<lparr>textLen := TEXT_TABLE_MAX_COLUMN_LEN\<rparr>
                                         else e2)
                               in case malloc ms2 of
                                    (False, ms3) \<Rightarrow> Inr (False, link (e3\<lparr>textLen := 0\<rparr>))
                                  | (True, ms3) \<Rightarrow>
                                     (let txt = take (textLen e3) s;
                                          e4 = e3\<lparr>text' := Some txt\<rparr>
                                      in Inr (True,
                                           link (e4\<lparr>rowMaxTextLen :=
                                                      calc_rowMaxTextLen txt\<rparr>)))))
                     else Inr (True, link pEntry)))))"

section \<open>TextTablePrint\<close>

subsection \<open>Scratch buffers and the callback\<close>

text \<open>
  The four blocks a render call allocates. A call of the output callback is recorded as
  the buffer whose address is passed together with the C string that buffer holds at
  that moment.
\<close>

datatype scratch = PColumn | RowBuf | GridBuf | HeadBuf

definition free :: "scratch \<Rightarrow> scratch list \<Rightarrow> scratch list" where
  "free b live = removeAll b live"

definition PrintLineCallbackFunction :: "scratch \<Rightarrow> string \<Rightarrow> (scratch \<times> string) list" where
  "PrintLineCallbackFunction b buf = [(b, c_str buf)]"

text \<open>
  What a call of \<^verbatim>\<open>TextTablePrint\<close> leaves behind when it returns: the return value,
  the calls of the callback in order, the table (the write pointers of its entries move)
  and the scratch blocks that are still allocated.
\<close>

record print_result =
  retval :: bool
  calls :: "(scratch \<times> string) list"
  table_after :: "TextTable_t option"
  leaked :: "scratch list"

subsection \<open>Column widths and the border lines\<close>

text \<open>
  The inner loop over \<^verbatim>\<open>j\<close> of the width computation walks \<^verbatim>\<open>pColumn[j]\<close> and the
  entry pointer in step; the outer loop runs it once per row, the entry pointer moving
  on by \<^verbatim>\<open>columns\<close> entries.
\<close>

fun metrics_row :: "T_Column list \<Rightarrow> TextTableEntry_t list \<Rightarrow> T_Column list" where
  "metrics_row (col # pColumn) (pEntry # es) =
     \<lparr>col_rowMaxTextLen =
        (if rowMaxTextLen pEntry > col_rowMaxTextLen col
         then rowMaxTextLen pEntry else col_rowMaxTextLen col),
      col_ansiSeqMaxLen =
        (if ansiSeqLen pEntry > col_ansiSeqMaxLen col
         then ansiSeqLen pEntry else col_ansiSeqMaxLen col)\<rparr>
     # metrics_row pColumn es"
| "metrics_row pColumn [] = pColumn"
| "metrics_row [] es = []"

fun metrics_rows :: "nat \<Rightarrow> nat \<Rightarrow> T_Column list \<Rightarrow> TextTableEntry_t list \<Rightarrow> T_Column list" where
  "metrics_rows columns 0 pColumn pEntry = pColumn"
| "metrics_rows columns (Suc n) pColumn pEntry =
     metrics_rows columns n (metrics_row pColumn (take columns pEntry)) (drop columns pEntry)"

definition calc_rowLen :: "TextTable_t \<Rightarrow> nat \<Rightarrow> T_Column list \<Rightarrow> nat" where
  "calc_rowLen table posX pColumn =
     2 + sum_list (map (\<lambda>col. col_rowMaxTextLen col + spacesBetweenBorder table * 2 + 1
                              + (if col_ansiSeqMaxLen col \<noteq> 0
                                 then col_ansiSeqMaxLen col + length sAnsiSequenceEnd else 0))
                       pColumn)
       + posX"

definition border :: "TextTable_t \<Rightarrow> char \<Rightarrow> nat \<Rightarrow> T_Column list \<Rightarrow> string" where
  "border table x posX pColumn =
     replicate posX SPC @ [charConnectorXY table]
       @ concat (map (\<lambda>col. replicate (col_rowMaxTextLen col + spacesBetweenBorder table * 2) x
                               @ [charConnectorXY table])
                     pColumn)"

subsection \<open>One physical line of a row\<close>

text \<open>\<^verbatim>\<open>*pEntry->writeTxt\<close> for a write pointer that is not null.\<close>

definition deref :: "string \<Rightarrow> char" where
  "deref s = (case s of [] \<Rightarrow> NUL | c # cs \<Rightarrow> c)"

text \<open>
  The loop over \<^verbatim>\<open>k\<close> without the ANSI start: \<open>n\<close> counts the iterations left, the
  second argument is the write pointer.
\<close>

fun write_column_row :: "nat \<Rightarrow> string option \<Rightarrow> string \<times> string option" where
  "write_column_row 0 w = ([], w)"
| "write_column_row (Suc n) w =
     (case w of
        None \<Rightarrow> (case write_column_row n None of (out, w') \<Rightarrow> (SPC # out, w'))
      | Some s \<Rightarrow>
          if deref s = NUL \<or> deref s = LF
          then (case write_column_row n (Some s) of (out, w') \<Rightarrow> (SPC # out, w'))
          else (case write_column_row n (Some (tl s)) of (out, w') \<Rightarrow> (deref s # out, w')))"

text \<open>
  The body of the loop over \<^verbatim>\<open>j\<close> for one entry: the bytes it writes to the row buffer,
  whether it sets \<^verbatim>\<open>newLine\<close>, and the entry afterwards. \<^verbatim>\<open>memcpy\<close> copies
  \<^verbatim>\<open>ansiSeqLen\<close> bytes of the ANSI sequence, which is all of it for an entry built by
  \<^verbatim>\<open>TextTableAdd\<close>.
\<close>

definition write_cell ::
  "TextTable_t \<Rightarrow> TabStyle_e \<Rightarrow> nat \<Rightarrow> nat \<Rightarrow> bool \<Rightarrow> nat \<Rightarrow> T_Column \<Rightarrow> TextTableEntry_t
     \<Rightarrow> string \<times> bool \<times> TextTableEntry_t" where
  "write_cell table tabStyle columns i firstRowPerColumn j col pEntry =
     (let spaces = replicate (spacesBetweenBorder table) SPC;
          opening =
            (if j = 0 then
               (if i = 0 then
                  (case tabStyle of
                     TABSTYLE_COMACT \<Rightarrow> []
                   | TABSTYLE_REGULAR_HEAD_OFF \<Rightarrow> charGridBoundary table # spaces
                   | TABSTYLE_SEPARATED_HEAD_OFF \<Rightarrow> charGridBoundary table # spaces
                   | TABSTYLE_REGULAR_HEAD_ON \<Rightarrow> charHeadBoundary table # spaces
                   | TABSTYLE_SEPARATED_HEAD_ON \<Rightarrow> charHeadBoundary table # spaces)
                else (if tabStyle \<noteq> TABSTYLE_COMACT
                      then charGridBoundary table # spaces else []))
             else spaces);
          e1 = (if firstRowPerColumn then pEntry\<lparr>writeTxt := text' pEntry\<rparr> else pEntry);
          ansi_start =
            (case ansiSeq e1 of
               Some a \<Rightarrow> if 0 < col_rowMaxTextLen col then take (ansiSeqLen e1) a else []
             | None \<Rightarrow> []);
          ansi_end = (case ansiSeq e1 of Some a \<Rightarrow> sAnsiSequenceEnd | None \<Rightarrow> [])
      in case write_column_row (col_rowMaxTextLen col) (writeTxt e1) of
           (body, w) \<Rightarrow>
             (let newLine = (case w of Some s \<Rightarrow> deref s = LF | None \<Rightarrow> False);
                  e2 = e1\<lparr>writeTxt := (if newLine then map_option tl w else w)\<rparr>;
                  sep = (if tabStyle \<noteq> TABSTYLE_COMACT \<and> j < columns - 1
                         then [charGridSeparator table] else [])
              in (opening @ ansi_start @ body @ ansi_end @ spaces @ sep, newLine, e2)))"

text \<open>
  The loop over \<^verbatim>\<open>j\<close>, from column \<open>j\<close> on: \<^verbatim>\<open>pColumn[j]\<close> and the entry pointer
  move in step. It returns the bytes written, the flag \<^verbatim>\<open>newLine\<close> and the entries of
  the row afterwards.
\<close>

fun write_columns ::
  "TextTable_t \<Rightarrow> TabStyle_e \<Rightarrow> nat \<Rightarrow> nat \<Rightarrow> bool \<Rightarrow> nat \<Rightarrow> T_Column list
     \<Rightarrow> TextTableEntry_t list \<Rightarrow> string \<times> bool \<times> TextTableEntry_t list" where
  "write_columns table tabStyle columns i firstRowPerColumn j (col # pColumn) (pEntry # es) =
     (case write_cell table tabStyle columns i firstRowPerColumn j col pEntry of
        (out, nl, e') \<Rightarrow>
          (case write_columns table tabStyle columns i firstRowPerColumn (j + 1) pColumn es of
             (outs, nls, es') \<Rightarrow> (out @ outs, nl \<or> nls, e' # es')))"
| "write_columns table tabStyle columns i firstRowPerColumn j pColumn [] = ([], False, [])"
| "write_columns table tabStyle columns i firstRowPerColumn j [] es = ([], False, es)"

text \<open>The closing boundary character of a line of row \<open>i\<close>.\<close>

definition closing :: "TextTable_t \<Rightarrow> TabStyle_e \<Rightarrow> nat \<Rightarrow> string" where
  "closing table tabStyle i =
     (if i = 0 then
        (case tabStyle of
           TABSTYLE_COMACT \<Rightarrow> []
         | TABSTYLE_REGULAR_HEAD_OFF \<Rightarrow> [charGridBoundary table]
         | TABSTYLE_SEPARATED_HEAD_OFF \<Rightarrow> [charGridBoundary table]
         | TABSTYLE_REGULAR_HEAD_ON \<Rightarrow> [charHeadBoundary table]
         | TABSTYLE_SEPARATED_HEAD_ON \<Rightarrow> [charHeadBoundary table])
      else (if tabStyle \<noteq> TABSTYLE_COMACT then [charGridBoundary table] else []))"

text \<open>
  One pass of the \<^verbatim>\<open>do\<close> loop up to the terminating NUL: the row buffer keeps its
  \<open>posX\<close> leading blanks, the bytes are written one after the other behind them, and the
  terminator follows. The buffer has \<open>rowLen\<close> bytes; writing behind its end is a fault.
\<close>

definition row_pass ::
  "TextTable_t \<Rightarrow> TabStyle_e \<Rightarrow> nat \<Rightarrow> nat \<Rightarrow> nat \<Rightarrow> T_Column list \<Rightarrow> nat \<Rightarrow> bool
     \<Rightarrow> TextTableEntry_t list \<Rightarrow> fault + (string \<times> bool \<times> TextTableEntry_t list)" where
  "row_pass table tabStyle posX columns rowLen pColumn i firstRowPerColumn row =
     (case write_columns table tabStyle columns i firstRowPerColumn 0 pColumn row of
        (out, newLine, row') \<Rightarrow>
          (let rowBuf = replicate posX SPC @ out @ closing table tabStyle i
           in if rowLen < length rowBuf + 1 then Inl BufferOverflow
              else Inr (rowBuf, newLine, row')))"

subsection \<open>The lines of one row\<close>

text \<open>
  The \<^verbatim>\<open>do ... while (newLine)\<close> loop ends because every pass that sets
  \<^verbatim>\<open>newLine\<close> moves a write pointer past a newline: the bytes left behind the write
  pointers of the row decrease.
\<close>

definition cursor_len :: "TextTableEntry_t \<Rightarrow> nat" where
  "cursor_len e = (case writeTxt e of None \<Rightarrow> 0 | Some s \<Rightarrow> length s)"

definition pending :: "bool \<Rightarrow> TextTableEntry_t \<Rightarrow> nat" where
  "pending firstRowPerColumn e =
     (if firstRowPerColumn
      then (case text' e of None \<Rightarrow> 0 | Some s \<Rightarrow> length s) + cursor_len e
      else cursor_len e)"

text \<open>
  The \<^verbatim>\<open>do\<close> loop of row \<open>i\<close>: every pass builds the row buffer; before the very first
  line of the table the border of the style goes to the callback, then the row buffer.
  It returns the calls of the callback and the entries of the row afterwards.
\<close>

definition first_line ::
  "TabStyle_e \<Rightarrow> string \<Rightarrow> string \<Rightarrow> (scratch \<times> string) list" where
  "first_line tabStyle gridBuf headBuf =
     (case tabStyle of
        TABSTYLE_COMACT \<Rightarrow> []
      | TABSTYLE_REGULAR_HEAD_OFF \<Rightarrow> PrintLineCallbackFunction GridBuf gridBuf
      | TABSTYLE_SEPARATED_HEAD_OFF \<Rightarrow> PrintLineCallbackFunction GridBuf gridBuf
      | TABSTYLE_REGULAR_HEAD_ON \<Rightarrow> PrintLineCallbackFunction HeadBuf headBuf
      | TABSTYLE_SEPARATED_HEAD_ON \<Rightarrow> PrintLineCallbackFunction HeadBuf headBuf)"

function print_row ::
  "TextTable_t \<Rightarrow> TabStyle_e \<Rightarrow> nat \<Rightarrow> nat \<Rightarrow> nat \<Rightarrow> T_Column list \<Rightarrow> string \<Rightarrow> string
     \<Rightarrow> nat \<Rightarrow> bool \<Rightarrow> bool \<Rightarrow> TextTableEntry_t list
     \<Rightarrow> fault + ((scratch \<times> string) list \<times> TextTableEntry_t list)" where
  "print_row table tabStyle posX columns rowLen pColumn gridBuf headBuf
       i firstTableLine firstRowPerColumn row =
     (case row_pass table tabStyle posX columns rowLen pColumn i firstRowPerColumn row of
        Inl f \<Rightarrow> Inl f
      | Inr (rowBuf, newLine, row') \<Rightarrow>
          (let out = (if firstTableLine then first_line tabStyle gridBuf headBuf else [])
                       @ PrintLineCallbackFunction RowBuf rowBuf
           in if newLine then
                (case print_row table tabStyle posX columns rowLen pColumn gridBuf headBuf
                        i False False row' of
                   Inl f \<Rightarrow> Inl f
                 | Inr (outs, row'') \<Rightarrow> Inr (out @ outs, row''))
              else Inr (out, row')))"
  by pat_completeness auto

subsection \<open>The loop over the rows and the function itself\<close>

text \<open>The line that follows the lines of row \<open>i\<close> inside the loop over the rows.\<close>

definition after_row ::
  "TabStyle_e \<Rightarrow> nat \<Rightarrow> nat \<Rightarrow> string \<Rightarrow> string \<Rightarrow> (scratch \<times> string) list" where
  "after_row tabStyle rows i gridBuf headBuf =
     (if i = 0 then
        (case tabStyle of
           TABSTYLE_COMACT \<Rightarrow> []
         | TABSTYLE_REGULAR_HEAD_OFF \<Rightarrow> []
         | TABSTYLE_SEPARATED_HEAD_OFF \<Rightarrow> PrintLineCallbackFunction GridBuf gridBuf
         | TABSTYLE_REGULAR_HEAD_ON \<Rightarrow> PrintLineCallbackFunction HeadBuf headBuf
         | TABSTYLE_SEPARATED_HEAD_ON \<Rightarrow> PrintLineCallbackFunction HeadBuf headBuf)
      else if i < rows - 1 then
        (case tabStyle of
           TABSTYLE_COMACT \<Rightarrow> []
         | TABSTYLE_REGULAR_HEAD_ON \<Rightarrow> []
         | TABSTYLE_REGULAR_HEAD_OFF \<Rightarrow> []
         | TABSTYLE_SEPARATED_HEAD_OFF \<Rightarrow> PrintLineCallbackFunction GridBuf gridBuf
         | TABSTYLE_SEPARATED_HEAD_ON \<Rightarrow> PrintLineCallbackFunction GridBuf gridBuf)
      else [])"

text \<open>
  The loop \<^verbatim>\<open>for (i = 0; i < rows; i++)\<close> from \<open>i\<close> on. \<open>pEntry\<close> is the list of
  entries from the entry pointer on; a row is its first \<open>columns\<close> entries.
  \<^verbatim>\<open>firstTableLine\<close> is false as soon as one line has been printed.
\<close>

function print_rows ::
  "TextTable_t \<Rightarrow> TabStyle_e \<Rightarrow> nat \<Rightarrow> nat \<Rightarrow> nat \<Rightarrow> nat \<Rightarrow> T_Column list \<Rightarrow> string \<Rightarrow> string
     \<Rightarrow> nat \<Rightarrow> bool \<Rightarrow> TextTableEntry_t list
     \<Rightarrow> fault + ((scratch \<times> string) list \<times> TextTableEntry_t list)" where
  "print_rows table tabStyle posX columns rows rowLen pColumn gridBuf headBuf
       i firstTableLine pEntry =
     (if i < rows then
        (case print_row table tabStyle posX columns rowLen pColumn gridBuf headBuf
                i firstTableLine True (take columns pEntry) of
           Inl f \<Rightarrow> Inl f
         | Inr (out, row') \<Rightarrow>
             (case print_rows table tabStyle posX columns rows rowLen pColumn gridBuf headBuf
                     (i + 1) False (drop columns pEntry) of
                Inl f \<Rightarrow> Inl f
              | Inr (outs, es') \<Rightarrow>
                  Inr (out @ after_row tabStyle rows i gridBuf headBuf @ outs, row' @ es')))
      else Inr ([], pEntry))"
  by pat_completeness auto
termination
  by (relation "measure (\<lambda>(table, tabStyle, posX, columns, rows, rowLen, pColumn, gridBuf,
        headBuf, i, firstTableLine, pEntry). rows - i)") auto

declare print_rows.simps [simp del]

text \<open>
  The function from its first allocation on, for a table \<open>t\<close> that passed the argument
  checks, with \<open>rows\<close> as computed by them. \<open>ms\<close> gives the outcomes of the four calls of
  \<^verbatim>\<open>malloc\<close> in the order \<^verbatim>\<open>pColumn\<close>, \<^verbatim>\<open>rowBuf\<close>, \<^verbatim>\<open>gridBuf\<close>,
  \<^verbatim>\<open>headBuf\<close>. The width loop reads \<open>rows * columns\<close> entries along
  \<^verbatim>\<open>nextEntry\<close>; a shorter list makes it read through a null pointer.
\<close>

definition TextTablePrint_render ::
  "TextTable_t \<Rightarrow> TabStyle_e \<Rightarrow> nat \<Rightarrow> nat \<Rightarrow> nat \<Rightarrow> bool list \<Rightarrow> fault + print_result" where
  "TextTablePrint_render t tabStyle posX columns rows ms =
     (let return_false = (\<lambda>live. Inr \<lparr>retval = False, calls = [], table_after = Some t,
                                       leaked = live\<rparr>)
      in case malloc ms of
           (False, ms1) \<Rightarrow> return_false []
         | (True, ms1) \<Rightarrow>
            if length (head t) < rows * columns then Inl NullPointerRead
            else
              (let pColumn = metrics_rows columns rows
                               (replicate columns
                                  \<lparr>col_rowMaxTextLen = 0, col_ansiSeqMaxLen = 0\<rparr>)
                               (head t);
                   rowLen = calc_rowLen t posX pColumn
               in case malloc ms1 of
                    (False, ms2) \<Rightarrow> return_false [PColumn]
                  | (True, ms2) \<Rightarrow>
                     (case malloc ms2 of
                        (False, ms3) \<Rightarrow> return_false [PColumn, RowBuf]
                      | (True, ms3) \<Rightarrow>
                         (case malloc ms3 of
                            (False, ms4) \<Rightarrow> return_false [PColumn, RowBuf, GridBuf]
                          | (True, ms4) \<Rightarrow>
                             (let gridBuf = border t (charGridX t) posX pColumn;
                                  headBuf = border t (charHeadX t) posX pColumn
                              in case print_rows t tabStyle posX columns rows rowLen
                                        pColumn gridBuf headBuf 0 True
                                        (take (rows * columns) (head t)) of
                                   Inl f \<Rightarrow> Inl f
                                 | Inr (out, es') \<Rightarrow>
                                     Inr \<lparr>retval = True,
                                          calls = out @
                                            (if tabStyle \<noteq> TABSTYLE_COMACT
                                             then PrintLineCallbackFunction GridBuf gridBuf
                                             else []),
                                          table_after =
                                            Some (t\<lparr>head := es' @
                                              drop (rows * columns) (head t)\<rparr>),
                                          leaked =
                                            free PColumn (free RowBuf (free HeadBuf
                                              (free GridBuf
                                                 [PColumn, RowBuf, GridBuf,
                                                  HeadBuf])))\<rparr>)))))"

text \<open>
  \<open>TextTablePrint table callback tabStyle posX columns ms\<close>: the argument checks, then the
  rendering. \<open>callback\<close> is \<open>None\<close> for a null function pointer.
\<close>

definition TextTablePrint ::
  "TextTable_t option \<Rightarrow> unit option \<Rightarrow> TabStyle_e \<Rightarrow> nat \<Rightarrow> nat \<Rightarrow> bool list
     \<Rightarrow> fault + print_result" where
  "TextTablePrint table callback tabStyle posX columns ms =
     (let return_false = Inr \<lparr>retval = False, calls = [], table_after = table, leaked = []\<rparr>
      in case table of
           None \<Rightarrow> return_false
         | Some t \<Rightarrow>
            if callback = None then return_false
            else if posX > TEXT_TABLE_MAX_X_POS then return_false
            else if columns = 0 then return_false
            else if entries t = 0 then return_false
            else
              (let rows = entries t div columns in
               if entries t \<noteq> rows * columns then return_false
               else TextTablePrint_render t tabStyle posX columns rows ms))"

section \<open>Reference notions used in the statements\<close>

text \<open>The table \<^verbatim>\<open>TextTableInit\<close> produces: no entries, the default characters.\<close>

definition initialized :: TextTable_t where
  "initialized = \<lparr>head = [], entries = 0,
                   charGridX = CHR ''-'', charGridBoundary = CHR ''|'',
                   charGridSeparator = CHR ''|'', charHeadX = CHR ''='',
                   charHeadBoundary = CHR ''|'', charHeadSeparator = CHR ''|'',
                   charConnectorXY = CHR ''+'', spacesBetweenBorder = 1\<rparr>"

text \<open>
  Splitting a text on the newline character, as the specification describes the column
  rows of a cell: the pieces between the newlines, in order (a text with \<open>n\<close> newlines has
  \<open>n + 1\<close> pieces, some of which may be empty).
\<close>

fun split_newline :: "string \<Rightarrow> string list" where
  "split_newline [] = [[]]"
| "split_newline (c # cs) =
     (if c = LF then [] # split_newline cs
      else (c # hd (split_newline cs)) # tl (split_newline cs))"

text \<open>
  A sequence of \<^verbatim>\<open>TextTableAdd\<close> calls, one per cell (ANSI sequence, formatted text),
  every allocation succeeding; it returns the return values of the calls and the table.
\<close>

fun TextTableAdd_all ::
  "TextTable_t option \<Rightarrow> (string option \<times> string option) list
     \<Rightarrow> fault + (bool list \<times> TextTable_t option)" where
  "TextTableAdd_all table [] = Inr ([], table)"
| "TextTableAdd_all table ((ansi, format) # cells) =
     (case TextTableAdd table ansi format [] of
        Inl f \<Rightarrow> Inl f
      | Inr (r, table') \<Rightarrow>
          (case TextTableAdd_all table' cells of
             Inl f \<Rightarrow> Inl f
           | Inr (rs, table'') \<Rightarrow> Inr (r # rs, table'')))"

text \<open>The table of the six cells H1, H2, R1C1, R1C2/R1C2b, R2C1, R2C2.\<close>

definition example_table :: TextTable_t where
  "example_table =
     initialized\<lparr>head :=
       [\<lparr>text' = Some ''H1'', textLen = 2, rowMaxTextLen = 2,
         ansiSeq = None, ansiSeqLen = 0, writeTxt = None\<rparr>,
        \<lparr>text' = Some ''H2'', textLen = 2, rowMaxTextLen = 2,
         ansiSeq = None, ansiSeqLen = 0, writeTxt = None\<rparr>,
        \<lparr>text' = Some ''R1C1'', textLen = 4, rowMaxTextLen = 4,
         ansiSeq = None, ansiSeqLen = 0, writeTxt = None\<rparr>,
        \<lparr>text' = Some ''R1C2\<newline>R1C2b'', textLen = 10, rowMaxTextLen = 5,
         ansiSeq = None, ansiSeqLen = 0, writeTxt = None\<rparr>,
        \<lparr>text' = Some ''R2C1'', textLen = 4, rowMaxTextLen = 4,
         ansiSeq = None, ansiSeqLen = 0, writeTxt = None\<rparr>,
        \<lparr>text' = Some ''R2C2'', textLen = 4, rowMaxTextLen = 4,
         ansiSeq = None, ansiSeqLen = 0, writeTxt = None\<rparr>],
       entries := 6\<rparr>"

text \<open>
  The example table after a render call: every write pointer stands at the terminating
  NUL of its text.
\<close>

definition example_cursors_at_end :: TextTable_t where
  "example_cursors_at_end =
     example_table\<lparr>head := map (\<lambda>e. e\<lparr>writeTxt := Some []\<rparr>) (head example_table)\<rparr>"


text \<open>
  The part of \<^verbatim>\<open>TextTablePrint\<close> that runs once all four allocations have
  succeeded and the entry list is long enough: widths, borders, the loop over the rows,
  the closing border, and the four calls of \<^verbatim>\<open>free\<close>.
\<close>

definition render_run ::
  "TextTable_t \<Rightarrow> TabStyle_e \<Rightarrow> nat \<Rightarrow> nat \<Rightarrow> nat \<Rightarrow> fault + print_result" where
  "render_run t tabStyle posX columns rows =
     (let pColumn = metrics_rows columns rows
                      (replicate columns \<lparr>col_rowMaxTextLen = 0, col_ansiSeqMaxLen = 0\<rparr>)
                      (head t);
          rowLen = calc_rowLen t posX pColumn;
          gridBuf = border t (charGridX t) posX pColumn;
          headBuf = border t (charHeadX t) posX pColumn
      in case print_rows t tabStyle posX columns rows rowLen pColumn gridBuf headBuf 0 True
                (take (rows * columns) (head t)) of
           Inl f \<Rightarrow> Inl f
         | Inr (out, es') \<Rightarrow>
             Inr \<lparr>retval = True,
                  calls = out @ (if tabStyle \<noteq> TABSTYLE_COMACT
                                 then PrintLineCallbackFunction GridBuf gridBuf else []),
                  table_after = Some (t\<lparr>head := es' @ drop (rows * columns) (head t)\<rparr>),
                  leaked = []\<rparr>)"

text \<open>
  The column widths a render call of table \<open>t\<close> with \<open>columns\<close> columns computes,
  its two border buffers, and the callback call that passes the regular border.
\<close>

definition pColumn_of :: "TextTable_t \<Rightarrow> nat \<Rightarrow> T_Column list" where
  "pColumn_of t columns =
     metrics_rows columns (entries t div columns)
       (replicate columns \<lparr>col_rowMaxTextLen = 0, col_ansiSeqMaxLen = 0\<rparr>) (head t)"

definition grid_buf :: "TextTable_t \<Rightarrow> nat \<Rightarrow> nat \<Rightarrow> string" where
  "grid_buf t posX columns = border t (charGridX t) posX (pColumn_of t columns)"

definition head_buf :: "TextTable_t \<Rightarrow> nat \<Rightarrow> nat \<Rightarrow> string" where
  "head_buf t posX columns = border t (charHeadX t) posX (pColumn_of t columns)"

definition grid_call :: "TextTable_t \<Rightarrow> nat \<Rightarrow> nat \<Rightarrow> scratch \<times> string" where
  "grid_call t posX columns = (GridBuf, c_str (grid_buf t posX columns))"

text \<open>
  The callback calls of the \<^verbatim>\<open>do\<close> loop of row \<open>i\<close> on its own (not counting a
  border before the first table line): \<open>row_out\<close> for given buffers and entries,
  \<open>row_calls\<close> for row \<open>i\<close> of table \<open>t\<close> as a render call processes it.
\<close>

definition row_out ::
  "TextTable_t \<Rightarrow> TabStyle_e \<Rightarrow> nat \<Rightarrow> nat \<Rightarrow> nat \<Rightarrow> T_Column list \<Rightarrow> string \<Rightarrow> string
     \<Rightarrow> nat \<Rightarrow> TextTableEntry_t list \<Rightarrow> (scratch \<times> string) list" where
  "row_out t tabStyle posX columns rowLen pColumn gridBuf headBuf i row =
     (case print_row t tabStyle posX columns rowLen pColumn gridBuf headBuf i False True row of
        Inl f \<Rightarrow> []
      | Inr (out, row') \<Rightarrow> out)"

definition row_calls ::
  "TextTable_t \<Rightarrow> TabStyle_e \<Rightarrow> nat \<Rightarrow> nat \<Rightarrow> nat \<Rightarrow> (scratch \<times> string) list" where
  "row_calls t tabStyle posX columns i =
     row_out t tabStyle posX columns (calc_rowLen t posX (pColumn_of t columns))
       (pColumn_of t columns) (grid_buf t posX columns) (head_buf t posX columns)
       i (take columns (drop (i * columns) (head t)))"

text \<open>
  Two tables have the same style when they agree on every configuration field that
  \<^verbatim>\<open>TextTablePrint\<close> reads, that is on all of them but \<^verbatim>\<open>charHeadSeparator\<close>.
\<close>

definition same_style :: "TextTable_t \<Rightarrow> TextTable_t \<Rightarrow> bool" where
  "same_style t t' =
     (charGridX t = charGridX t' \<and> charGridBoundary t = charGridBoundary t' \<and>
      charGridSeparator t = charGridSeparator t' \<and> charHeadX t = charHeadX t' \<and>
      charHeadBoundary t = charHeadBoundary t' \<and> charConnectorXY t = charConnectorXY t' \<and>
      spacesBetweenBorder t = spacesBetweenBorder t')"





text \<open>
  An entry with its write pointer cleared, and what a caller observes of a render call:
  the return value, the callback calls and the blocks left allocated.
\<close>

definition clear_cursor :: "TextTableEntry_t \<Rightarrow> TextTableEntry_t" where
  "clear_cursor e = e\<lparr>writeTxt := None\<rparr>"

definition observed :: "print_result \<Rightarrow> bool \<times> (scratch \<times> string) list \<times> scratch list" where
  "observed r = (retval r, calls r, leaked r)"

section \<open>Termination of the loop over the lines of a row\<close>

lemma write_column_row_cursor:
  "write_column_row n w = (out, w') \<Longrightarrow>
     (w = None \<longrightarrow> w' = None) \<and>
     (\<forall>s. w = Some s \<longrightarrow> (\<exists>s'. w' = Some s' \<and> length s' \<le> length s))"
proof (induction n arbitrary: w out)
  case 0
  then show ?case by simp
next
  case (Suc n)
  show ?case
  proof (cases w)
    case None
    with Suc.prems Suc.IH [of None] show ?thesis
      by (auto split: prod.splits)
  next
    case (Some s)
    show ?thesis
    proof (cases "deref s = NUL \<or> deref s = LF")
      case True
      with Some Suc.prems Suc.IH [of "Some s"] show ?thesis
        by (auto split: prod.splits)
    next
      case False
      with Some Suc.prems Suc.IH [of "Some (tl s)"] show ?thesis
        by (fastforce split: prod.splits)
    qed
  qed
qed

lemma write_cell_pending:
  assumes "write_cell table tabStyle columns i frpc j col e = (out, nl, e')"
  shows "cursor_len e' \<le> pending frpc e" and "nl \<Longrightarrow> cursor_len e' < pending frpc e"
proof -
  define e1 where "e1 = (if frpc then e\<lparr>writeTxt := text' e\<rparr> else e)"
  obtain body w where bw: "write_column_row (col_rowMaxTextLen col) (writeTxt e1) = (body, w)"
    by (cases "write_column_row (col_rowMaxTextLen col) (writeTxt e1)") auto
  have e1: "cursor_len e1 \<le> pending frpc e"
    by (simp add: e1_def cursor_len_def pending_def split: option.splits)
  define nl' where "nl' = (case w of Some s \<Rightarrow> deref s = LF | None \<Rightarrow> False)"
  from assms bw have nl: "nl = nl'"
    and e': "e' = e1\<lparr>writeTxt := (if nl' then map_option tl w else w)\<rparr>"
    by (auto simp: write_cell_def Let_def e1_def nl'_def)
  from write_column_row_cursor [OF bw]
  have w: "(case w of None \<Rightarrow> 0 | Some s \<Rightarrow> length s) \<le> cursor_len e1"
    by (cases "writeTxt e1") (auto simp: cursor_len_def)
  show "cursor_len e' \<le> pending frpc e"
    using w e1 by (cases w) (auto simp: e' cursor_len_def)
  show "cursor_len e' < pending frpc e" if "nl"
  proof -
    from that nl obtain s where s: "w = Some s" "deref s = LF"
      by (auto simp: nl'_def split: option.splits)
    then have "s \<noteq> []"
      by (auto simp: deref_def NUL_def LF_def)
    with s w e1 that nl show ?thesis
      by (cases s) (auto simp: e' cursor_len_def)
  qed
qed

lemma write_columns_pending:
  "write_columns table tabStyle columns i frpc j pColumn es = (out, nl, es') \<Longrightarrow>
     sum_list (map cursor_len es') \<le> sum_list (map (pending frpc) es) \<and>
     (nl \<longrightarrow> sum_list (map cursor_len es') < sum_list (map (pending frpc) es))"
proof (induction table tabStyle columns i frpc j pColumn es arbitrary: out nl es'
    rule: write_columns.induct)
  case (1 table tabStyle columns i frpc j col pColumn pEntry es)
  obtain o1 n1 e1 where c: "write_cell table tabStyle columns i frpc j col pEntry = (o1, n1, e1)"
    by (cases "write_cell table tabStyle columns i frpc j col pEntry") auto
  obtain o2 n2 es2 where r:
    "write_columns table tabStyle columns i frpc (j + 1) pColumn es = (o2, n2, es2)"
    by (cases "write_columns table tabStyle columns i frpc (j + 1) pColumn es") auto
  from "1.prems" c r have eq: "nl = (n1 \<or> n2)" "es' = e1 # es2"
    by auto
  from "1.IH" [OF c [symmetric] refl r]
  have ih: "sum_list (map cursor_len es2) \<le> sum_list (map (pending frpc) es)"
    "n2 \<Longrightarrow> sum_list (map cursor_len es2) < sum_list (map (pending frpc) es)"
    by auto
  from write_cell_pending [OF c] ih show ?case
    by (auto simp: eq)
next
  case (2 table tabStyle columns i frpc j pColumn)
  then show ?case by simp
next
  case (3 table tabStyle columns i frpc j v va)
  then show ?case
    by (auto simp: pending_def intro!: sum_list_mono)
qed

termination print_row
proof (relation "measure (\<lambda>(table, tabStyle, posX, columns, rowLen, pColumn, gridBuf, headBuf,
    i, firstTableLine, firstRowPerColumn, row).
      (if firstRowPerColumn then 1 else 0) + sum_list (map (pending firstRowPerColumn) row))")
  show "wf (measure (\<lambda>(table, tabStyle, posX, columns, rowLen, pColumn, gridBuf, headBuf,
    i, firstTableLine, firstRowPerColumn, row).
      (if firstRowPerColumn then 1 else 0) + sum_list (map (pending firstRowPerColumn) row)))"
    by simp
next
  fix table tabStyle posX columns rowLen pColumn and gridBuf headBuf :: string
  fix i and firstTableLine firstRowPerColumn :: bool
  fix row x2 x y u newLine row' 
  assume rp: "row_pass table tabStyle posX columns rowLen pColumn i firstRowPerColumn row = Inr x2"
    and x2: "(x, y) = x2" "(newLine, row') = y" and nl: "newLine"
  from rp x2 obtain out where
    wc: "write_columns table tabStyle columns i firstRowPerColumn 0 pColumn row = (out, newLine, row')"
    by (auto simp: row_pass_def Let_def split: prod.splits if_splits)
  from write_columns_pending [OF wc] nl
  have "sum_list (map cursor_len row') < sum_list (map (pending firstRowPerColumn) row)"
    by simp
  moreover have "pending False = cursor_len"
    by (rule ext) (simp add: pending_def)
  ultimately show "((table, tabStyle, posX, columns, rowLen, pColumn, gridBuf, headBuf, i, False, False, row'),
      (table, tabStyle, posX, columns, rowLen, pColumn, gridBuf, headBuf, i, firstTableLine,
       firstRowPerColumn, row)) \<in> measure (\<lambda>(table, tabStyle, posX, columns, rowLen, pColumn, gridBuf, headBuf,
    i, firstTableLine, firstRowPerColumn, row).
      (if firstRowPerColumn then 1 else 0) + sum_list (map (pending firstRowPerColumn) row))"
    by (cases firstRowPerColumn) simp_all
qed

declare print_row.simps [simp del]

section \<open>Properties of TextTableInit and TextTableAdd\<close>

lemma TextTableInit_initialized: "TextTableInit (Some t) = (True, Some initialized)"
  by (simp add: TextTableInit_def initialized_def)

lemmas add_defs = TextTableAdd_def Let_def zero_entry_def initialized_def vsnprintf_len_def
  strlen_def c_str_def NUL_def LF_def TEXT_TABLE_MAX_ANSI_SEQ_LEN_def
  TEXT_TABLE_MAX_COLUMN_LEN_def calc_rowMaxTextLen_def

subsection \<open>The width of a cell\<close>

lemma split_newline_not_Nil: "split_newline cs \<noteq> []"
  by (induction cs) auto

lemma rowMax_loop_segments:
  "rowMax_loop cs m r = (m', r') \<Longrightarrow>
     max m' r' = max m (Max (set ((r + length (hd (split_newline cs)))
                                   # map length (tl (split_newline cs)))))"
proof (induction cs arbitrary: m r)
  case Nil
  then show ?case by auto
next
  case (Cons c cs)
  show ?case
  proof (cases "c = LF")
    case True
    have "(if m < r then r else m) = max m r"
      by auto
    with True Cons.prems have "rowMax_loop cs (max m r) 0 = (m', r')"
      by simp
    from Cons.IH [OF this]
    have "max m' r' = max (max m r) (Max (set (map length (split_newline cs))))"
      using split_newline_not_Nil [of cs] by (cases "split_newline cs") auto
    with True show ?thesis
      using split_newline_not_Nil [of cs] by (simp add: max.assoc)
  next
    case False
    with Cons.prems have "rowMax_loop cs m (r + 1) = (m', r')"
      by simp
    from Cons.IH [OF this] False show ?thesis
      by simp
  qed
qed

lemma calc_rowMaxTextLen_split:
  "calc_rowMaxTextLen s = max 1 (Max (set (map length (split_newline s))))"
proof -
  obtain m' r' where l: "rowMax_loop s 1 0 = (m', r')"
    by (cases "rowMax_loop s 1 0") auto
  from rowMax_loop_segments [OF l]
  have "max m' r' = max 1 (Max (set (map length (split_newline s))))"
    using split_newline_not_Nil [of s] by (cases "split_newline s") auto
  moreover have "calc_rowMaxTextLen s = max m' r'"
    using l by (auto simp: calc_rowMaxTextLen_def)
  ultimately show ?thesis
    by simp
qed

lemma TextTableAdd_malloc_ok:
  assumes "fst (malloc ms)"
  shows "TextTableAdd table ansi format ms =
         TextTableAdd table ansi format (True # snd (malloc ms))"
  using assms by (cases "malloc ms"; cases table) (simp_all add: TextTableAdd_def)

lemma TextTableAdd_last_entry:
  assumes "TextTableAdd (Some t) ansi format (True # ms) = Inr (r, Some t')"
  shows "head t' = head t @ [last (head t')]"
    and "text' (last (head t')) =
           (case format of
              None \<Rightarrow> None
            | Some s \<Rightarrow> if r \<and> 0 < vsnprintf_len s
                        then Some (take TEXT_TABLE_MAX_COLUMN_LEN s) else None)"
    and "rowMaxTextLen (last (head t')) =
           (case text' (last (head t')) of
              None \<Rightarrow> 0
            | Some s \<Rightarrow> max 1 (Max (set (map length (split_newline s)))))"
  using assms
  by (auto simp: TextTableAdd_def Let_def zero_entry_def calc_rowMaxTextLen_split
      vsnprintf_len_def TEXT_TABLE_MAX_COLUMN_LEN_def min_def
      split: option.splits if_splits prod.splits sum.splits bool.splits)

text \<open>
  Claim C5, as the code has it. Whenever \<^verbatim>\<open>TextTableAdd\<close> gets its entry allocated
  (the first call of \<^verbatim>\<open>malloc\<close> succeeds) and returns, it has appended exactly one entry
  \<open>e\<close>. The stored text is the formatted text cut to 96 bytes when
  the formatted text is not empty (and the call succeeds), and absent otherwise. The
  width \<open>rowMaxTextLen e\<close> is the maximum length of the pieces of the stored text between
  newlines, but at least 1, when a text is stored; it is 0, not 1, when no text is stored
  (format absent or empty).
\<close>

theorem TextTableAdd_rowMaxTextLen:
  assumes "fst (malloc ms)"
    and "TextTableAdd (Some t) ansi format ms = Inr (r, Some t')"
  shows "\<exists>e. head t' = head t @ [e] \<and>
           text' e = (case format of
                        None \<Rightarrow> None
                      | Some s \<Rightarrow> if r \<and> 0 < vsnprintf_len s
                                  then Some (take TEXT_TABLE_MAX_COLUMN_LEN s) else None) \<and>
           rowMaxTextLen e =
             (case text' e of
                None \<Rightarrow> 0
              | Some s \<Rightarrow> max 1 (Max (set (map length (split_newline s)))))"
proof -
  from assms(2) have "TextTableAdd (Some t) ansi format (True # snd (malloc ms)) = Inr (r, Some t')"
    unfolding TextTableAdd_malloc_ok [OF assms(1), of "Some t" ansi format] .
  from TextTableAdd_last_entry [OF this] show ?thesis
    by blast
qed

theorem TextTableAdd_rowMaxTextLen_witness:
  "TextTableAdd (Some initialized) None (Some ''a\<newline>bb\<newline>ccc'') [True] =
     Inr (True, Some (initialized\<lparr>head :=
        [\<lparr>text' = Some ''a\<newline>bb\<newline>ccc'', textLen = 8, rowMaxTextLen = 3,
          ansiSeq = None, ansiSeqLen = 0, writeTxt = None\<rparr>], entries := 1\<rparr>)) \<and>
   (\<exists>e. head (initialized\<lparr>head :=
        [\<lparr>text' = Some ''a\<newline>bb\<newline>ccc'', textLen = 8, rowMaxTextLen = 3,
          ansiSeq = None, ansiSeqLen = 0, writeTxt = None\<rparr>], entries := 1\<rparr>) =
          head initialized @ [e] \<and>
        text' e = Some ''a\<newline>bb\<newline>ccc'' \<and> rowMaxTextLen e = 3)"
proof -
  have h: "TextTableAdd (Some initialized) None (Some ''a\<newline>bb\<newline>ccc'') [True] =
     Inr (True, Some (initialized\<lparr>head :=
        [\<lparr>text' = Some ''a\<newline>bb\<newline>ccc'', textLen = 8, rowMaxTextLen = 3,
          ansiSeq = None, ansiSeqLen = 0, writeTxt = None\<rparr>], entries := 1\<rparr>))"
    by (simp add: add_defs)
  have m: "fst (malloc [True])"
    by simp
  from TextTableAdd_rowMaxTextLen [OF m h] h show ?thesis
    by (simp add: add_defs)
qed

text \<open>
  Claim C5 as stated fails: a cell added with an absent format, or with a text that formats
  to the empty string, is the zeroed entry, whose width is 0 and not 1.
\<close>

theorem TextTableAdd_empty_cell_width_counterexample:
  "TextTableAdd (Some initialized) None None [] =
     Inr (True, Some (initialized\<lparr>head := [zero_entry], entries := 1\<rparr>)) \<and>
   TextTableAdd (Some initialized) None (Some []) [] =
     Inr (True, Some (initialized\<lparr>head := [zero_entry], entries := 1\<rparr>)) \<and>
   text' zero_entry = None \<and> rowMaxTextLen zero_entry = 0 \<and> rowMaxTextLen zero_entry \<noteq> 1"
  by (simp add: add_defs)

subsection \<open>The ANSI sequence of a cell\<close>

text \<open>
  Claim C4, as the code has it. Let the formatted text be non-empty. When every
  allocation succeeds the call returns true, whatever the length of the ANSI sequence.
  Whenever the call returns true it has appended one entry with the text (cut to 96
  bytes); the entry keeps the ANSI sequence exactly when the sequence is shorter than
  \<^verbatim>\<open>TEXT_TABLE_MAX_ANSI_SEQ_LEN\<close>, that is of at most 23 bytes. A sequence of 24
  bytes or more is dropped: the entry has no ANSI sequence and \<^verbatim>\<open>ansiSeqLen\<close> 0.
\<close>

theorem TextTableAdd_ansiSeq_kept_below_cap:
  assumes "0 < vsnprintf_len s"
  shows "(\<exists>t'. TextTableAdd (Some t) (Some a) (Some s) [] = Inr (True, Some t')) \<and>
         (TextTableAdd (Some t) (Some a) (Some s) ms = Inr (True, Some t') \<longrightarrow>
            (\<exists>e. head t' = head t @ [e] \<and> entries t' = entries t + 1 \<and>
                 text' e = Some (take TEXT_TABLE_MAX_COLUMN_LEN s) \<and>
                 ansiSeq e = (if strlen a < TEXT_TABLE_MAX_ANSI_SEQ_LEN
                              then Some (c_str a) else None) \<and>
                 ansiSeqLen e = (if strlen a < TEXT_TABLE_MAX_ANSI_SEQ_LEN
                                 then strlen a else 0)))"
proof
  from assms show "\<exists>t'. TextTableAdd (Some t) (Some a) (Some s) [] = Inr (True, Some t')"
    by (simp add: TextTableAdd_def Let_def)
  show "TextTableAdd (Some t) (Some a) (Some s) ms = Inr (True, Some t') \<longrightarrow>
            (\<exists>e. head t' = head t @ [e] \<and> entries t' = entries t + 1 \<and>
                 text' e = Some (take TEXT_TABLE_MAX_COLUMN_LEN s) \<and>
                 ansiSeq e = (if strlen a < TEXT_TABLE_MAX_ANSI_SEQ_LEN
                              then Some (c_str a) else None) \<and>
                 ansiSeqLen e = (if strlen a < TEXT_TABLE_MAX_ANSI_SEQ_LEN
                                 then strlen a else 0))"
  proof
    assume r: "TextTableAdd (Some t) (Some a) (Some s) ms = Inr (True, Some t')"
    obtain b1 ms1 where m1: "malloc ms = (b1, ms1)" by (cases "malloc ms") auto
    obtain b2 ms2 where m2: "malloc ms1 = (b2, ms2)" by (cases "malloc ms1") auto
    obtain b3 ms3 where m3: "malloc ms2 = (b3, ms3)" by (cases "malloc ms2") auto
    from r assms m1 m2 m3 show "\<exists>e. head t' = head t @ [e] \<and> entries t' = entries t + 1 \<and>
                 text' e = Some (take TEXT_TABLE_MAX_COLUMN_LEN s) \<and>
                 ansiSeq e = (if strlen a < TEXT_TABLE_MAX_ANSI_SEQ_LEN
                              then Some (c_str a) else None) \<and>
                 ansiSeqLen e = (if strlen a < TEXT_TABLE_MAX_ANSI_SEQ_LEN
                                 then strlen a else 0)"
      by (cases b1; cases b2; cases b3)
        (auto simp: TextTableAdd_def Let_def zero_entry_def vsnprintf_len_def
           TEXT_TABLE_MAX_COLUMN_LEN_def min_def split: if_splits)
  qed
qed

theorem TextTableAdd_ansiSeq_kept_below_cap_witness:
  "0 < vsnprintf_len ''x'' \<and>
   strlen ''12345678901234567890123'' = 23 \<and>
   TextTableAdd (Some initialized) (Some ''12345678901234567890123'') (Some ''x'') [] =
     Inr (True, Some (initialized\<lparr>head :=
        [\<lparr>text' = Some ''x'', textLen = 1, rowMaxTextLen = 1,
          ansiSeq = Some ''12345678901234567890123'', ansiSeqLen = 23, writeTxt = None\<rparr>],
        entries := 1\<rparr>)) \<and>
   (\<exists>e. head (initialized\<lparr>head :=
        [\<lparr>text' = Some ''x'', textLen = 1, rowMaxTextLen = 1,
          ansiSeq = Some ''12345678901234567890123'', ansiSeqLen = 23, writeTxt = None\<rparr>],
        entries := 1\<rparr>) = head initialized @ [e] \<and>
        text' e = Some (take TEXT_TABLE_MAX_COLUMN_LEN ''x'') \<and>
        ansiSeq e = Some (c_str ''12345678901234567890123'') \<and>
        ansiSeqLen e = strlen ''12345678901234567890123'')"
proof -
  define t' where "t' = initialized\<lparr>head :=
        [\<lparr>text' = Some ''x'', textLen = 1, rowMaxTextLen = 1,
          ansiSeq = Some ''12345678901234567890123'', ansiSeqLen = 23, writeTxt = None\<rparr>],
        entries := 1\<rparr>"
  have p: "0 < vsnprintf_len ''x''"
    by (simp add: vsnprintf_len_def)
  have l: "strlen ''12345678901234567890123'' = 23"
    by (simp add: strlen_def c_str_def NUL_def)
  have c: "strlen ''12345678901234567890123'' < TEXT_TABLE_MAX_ANSI_SEQ_LEN"
    by (simp add: l TEXT_TABLE_MAX_ANSI_SEQ_LEN_def)
  have h: "TextTableAdd (Some initialized) (Some ''12345678901234567890123'') (Some ''x'') [] =
     Inr (True, Some t')"
    unfolding t'_def by (simp add: add_defs)
  note th = TextTableAdd_ansiSeq_kept_below_cap [OF p, where t = initialized
      and a = "''12345678901234567890123''" and ms = "[]" and t' = t']
  from th h have "\<exists>e. head t' = head initialized @ [e] \<and>
        entries t' = entries initialized + 1 \<and>
        text' e = Some (take TEXT_TABLE_MAX_COLUMN_LEN ''x'') \<and>
        ansiSeq e = (if strlen ''12345678901234567890123'' < TEXT_TABLE_MAX_ANSI_SEQ_LEN
                     then Some (c_str ''12345678901234567890123'') else None) \<and>
        ansiSeqLen e = (if strlen ''12345678901234567890123'' < TEXT_TABLE_MAX_ANSI_SEQ_LEN
                        then strlen ''12345678901234567890123'' else 0)"
    by blast
  then have "\<exists>e. head t' = head initialized @ [e] \<and>
        text' e = Some (take TEXT_TABLE_MAX_COLUMN_LEN ''x'') \<and>
        ansiSeq e = Some (c_str ''12345678901234567890123'') \<and>
        ansiSeqLen e = strlen ''12345678901234567890123''"
    unfolding if_P [OF c] by blast
  with p l h show ?thesis
    unfolding t'_def by (simp only: simp_thms)
qed

text \<open>
  Claim C4 as stated fails at the length of the cap itself: an ANSI sequence of exactly 24
  bytes (\<^verbatim>\<open>TEXT_TABLE_MAX_ANSI_SEQ_LEN\<close>) given with a non-empty text is not kept.
  The call returns true and the stored cell has no ANSI sequence.
\<close>

theorem TextTableAdd_ansiSeq_of_cap_length_counterexample:
  "strlen ''123456789012345678901234'' = TEXT_TABLE_MAX_ANSI_SEQ_LEN \<and>
   TextTableAdd (Some initialized) (Some ''123456789012345678901234'') (Some ''x'') [] =
     Inr (True, Some (initialized\<lparr>head :=
        [\<lparr>text' = Some ''x'', textLen = 1, rowMaxTextLen = 1,
          ansiSeq = None, ansiSeqLen = 0, writeTxt = None\<rparr>], entries := 1\<rparr>))"
  by (simp add: add_defs)

text \<open>
  The sequence is kept or dropped in the same way when the allocation of the text fails
  afterwards, and 25 bytes are dropped as 24 are.
\<close>

lemma TextTableAdd_ansiSeq_stored:
  assumes "0 < vsnprintf_len s"
    and "TextTableAdd (Some t) (Some a) (Some s) (True # ms) = Inr (r, Some t')"
  shows "ansiSeq (last (head t')) =
           (if strlen a < TEXT_TABLE_MAX_ANSI_SEQ_LEN then Some (c_str a) else None)"
    and "ansiSeqLen (last (head t')) =
           (if strlen a < TEXT_TABLE_MAX_ANSI_SEQ_LEN then strlen a else 0)"
  using assms
  by (auto simp: TextTableAdd_def Let_def zero_entry_def
      split: option.splits if_splits prod.splits sum.splits bool.splits)

lemma TextTableAdd_ansiSeq_25_dropped:
  "TextTableAdd (Some initialized) (Some ''1234567890123456789012345'') (Some ''x'') [] =
     Inr (True, Some (initialized\<lparr>head :=
        [\<lparr>text' = Some ''x'', textLen = 1, rowMaxTextLen = 1,
          ansiSeq = None, ansiSeqLen = 0, writeTxt = None\<rparr>], entries := 1\<rparr>))"
  by (simp add: add_defs)

subsection \<open>A failed allocation of the text\<close>

text \<open>
  Claim C9. The formatted text is not empty, the entry is allocated (and the copy of the
  ANSI sequence, when one is made), and the allocation of the text buffer fails: the call
  returns false, yet the table has one more entry at its end, with no text and text
  length 0, and its entry count is one higher.
\<close>

theorem TextTableAdd_text_malloc_fails:
  assumes "0 < vsnprintf_len s"
    and "ms = True # (if (case ansi of None \<Rightarrow> False
                          | Some a \<Rightarrow> strlen a < TEXT_TABLE_MAX_ANSI_SEQ_LEN)
                      then [True] else []) @ False # rest"
  shows "TextTableAdd (Some t) ansi (Some s) ms =
           Inr (False, Some (t\<lparr>head := head t @
             [\<lparr>text' = None, textLen = 0, rowMaxTextLen = 0,
               ansiSeq = (case ansi of
                            None \<Rightarrow> None
                          | Some a \<Rightarrow> if strlen a < TEXT_TABLE_MAX_ANSI_SEQ_LEN
                                      then Some (c_str a) else None),
               ansiSeqLen = (case ansi of
                               None \<Rightarrow> 0
                             | Some a \<Rightarrow> if strlen a < TEXT_TABLE_MAX_ANSI_SEQ_LEN
                                         then strlen a else 0),
               writeTxt = None\<rparr>],
             entries := entries t + 1\<rparr>))"
proof (cases ansi)
  case None
  with assms show ?thesis
    by (simp add: TextTableAdd_def Let_def zero_entry_def)
next
  case (Some a)
  with assms show ?thesis
    by (cases "strlen a < TEXT_TABLE_MAX_ANSI_SEQ_LEN")
      (simp_all add: TextTableAdd_def Let_def zero_entry_def)
qed

theorem TextTableAdd_text_malloc_fails_witness:
  "0 < vsnprintf_len ''abc'' \<and>
   TextTableAdd (Some initialized) (Some ''XY'') (Some ''abc'') [True, True, False] =
     Inr (False, Some (initialized\<lparr>head :=
        [\<lparr>text' = None, textLen = 0, rowMaxTextLen = 0,
          ansiSeq = Some ''XY'', ansiSeqLen = 2, writeTxt = None\<rparr>], entries := 1\<rparr>))"
proof -
  have a: "0 < vsnprintf_len ''abc''"
    by (simp add: vsnprintf_len_def)
  have b: "[True, True, False] =
      True # (if (case Some ''XY'' of None \<Rightarrow> False
                  | Some a \<Rightarrow> strlen a < TEXT_TABLE_MAX_ANSI_SEQ_LEN)
              then [True] else []) @ False # []"
    by (simp add: add_defs)
  from TextTableAdd_text_malloc_fails [OF a b, of initialized] a show ?thesis
    by (simp add: add_defs)
qed

subsection \<open>A cell without text\<close>

lemma write_column_row_None:
  "write_column_row n None = (replicate n SPC, None)"
  by (induction n) auto

text \<open>
  Claim C10. With an absent format or a text that formats to the empty string, the call
  (its entry allocated: the first call of \<^verbatim>\<open>malloc\<close> succeeds) returns true and appends the zeroed entry whatever ANSI sequence
  was passed: the cell has no ANSI sequence. Rendering such a cell writes blanks and border
  characters only, neither an ANSI start nor the closing tag, and sets no newline flag.
\<close>

theorem TextTableAdd_empty_text_no_ansiSeq:
  assumes "format = None \<or> format = Some []" and "fst (malloc ms)"
  shows "TextTableAdd (Some t) ansi format ms =
           Inr (True, Some (t\<lparr>head := head t @ [zero_entry], entries := entries t + 1\<rparr>)) \<and>
         ansiSeq zero_entry = None \<and> ansiSeqLen zero_entry = 0 \<and>
         snd (write_cell table tabStyle columns i frpc j col zero_entry) = (False, zero_entry) \<and>
         set (fst (write_cell table tabStyle columns i frpc j col zero_entry)) \<subseteq>
           {SPC, charGridBoundary table, charHeadBoundary table, charGridSeparator table}"
proof -
  have "TextTableAdd (Some t) ansi format (True # snd (malloc ms)) =
           Inr (True, Some (t\<lparr>head := head t @ [zero_entry], entries := entries t + 1\<rparr>))"
    using assms(1) by (auto simp: TextTableAdd_def Let_def vsnprintf_len_def)
  then have "TextTableAdd (Some t) ansi format ms =
           Inr (True, Some (t\<lparr>head := head t @ [zero_entry], entries := entries t + 1\<rparr>))"
    unfolding TextTableAdd_malloc_ok [OF assms(2), of "Some t" ansi format] .
  moreover have "ansiSeq zero_entry = None \<and> ansiSeqLen zero_entry = 0"
    by (simp add: zero_entry_def)
  moreover have "snd (write_cell table tabStyle columns i frpc j col zero_entry) =
      (False, zero_entry)"
    by (simp add: write_cell_def Let_def zero_entry_def write_column_row_None)
  moreover have "set (fst (write_cell table tabStyle columns i frpc j col zero_entry)) \<subseteq>
           {SPC, charGridBoundary table, charHeadBoundary table, charGridSeparator table}"
    by (cases tabStyle)
      (auto simp: write_cell_def Let_def zero_entry_def write_column_row_None)
  ultimately show ?thesis
    by blast
qed

theorem TextTableAdd_empty_text_no_ansiSeq_witness:
  "(Some [] = None \<or> Some [] = Some ([] :: string)) \<and> fst (malloc []) \<and>
   TextTableAdd (Some initialized) (Some ''XY'') (Some []) [] =
     Inr (True, Some (initialized\<lparr>head := [zero_entry], entries := 1\<rparr>)) \<and>
   ansiSeq zero_entry = None"
proof -
  have h: "Some [] = None \<or> Some [] = Some ([] :: string)"
    by simp
  have m: "fst (malloc [])"
    by simp
  from TextTableAdd_empty_text_no_ansiSeq [OF h m, of initialized "Some ''XY''"] h m
  show ?thesis
    by (simp add: initialized_def)
qed

section \<open>TextTablePrint: the argument checks and the allocations\<close>

lemma TextTablePrint_None:
  "TextTablePrint None callback tabStyle posX columns ms =
     Inr \<lparr>retval = False, calls = [], table_after = None, leaked = []\<rparr>"
  by (simp add: TextTablePrint_def)

lemma TextTablePrint_Some:
  "TextTablePrint (Some t) callback tabStyle posX columns ms =
     (if callback = None \<or> TEXT_TABLE_MAX_X_POS < posX \<or> columns = 0 \<or> entries t = 0 \<or>
         entries t \<noteq> entries t div columns * columns
      then Inr \<lparr>retval = False, calls = [], table_after = Some t, leaked = []\<rparr>
      else TextTablePrint_render t tabStyle posX columns (entries t div columns) ms)"
  by (simp add: TextTablePrint_def Let_def)

lemma TextTablePrint_render_run:
  "TextTablePrint_render t tabStyle posX columns rows ms =
     (case malloc ms of
        (False, ms1) \<Rightarrow>
          Inr \<lparr>retval = False, calls = [], table_after = Some t, leaked = []\<rparr>
      | (True, ms1) \<Rightarrow>
          if length (head t) < rows * columns then Inl NullPointerRead
          else
            (case malloc ms1 of
               (False, ms2) \<Rightarrow>
                 Inr \<lparr>retval = False, calls = [], table_after = Some t, leaked = [PColumn]\<rparr>
             | (True, ms2) \<Rightarrow>
                (case malloc ms2 of
                   (False, ms3) \<Rightarrow>
                     Inr \<lparr>retval = False, calls = [], table_after = Some t,
                          leaked = [PColumn, RowBuf]\<rparr>
                 | (True, ms3) \<Rightarrow>
                    (case malloc ms3 of
                       (False, ms4) \<Rightarrow>
                         Inr \<lparr>retval = False, calls = [], table_after = Some t,
                              leaked = [PColumn, RowBuf, GridBuf]\<rparr>
                     | (True, ms4) \<Rightarrow> render_run t tabStyle posX columns rows))))"
proof -
  have fr: "free PColumn (free RowBuf (free HeadBuf (free GridBuf
      [PColumn, RowBuf, GridBuf, HeadBuf]))) = []"
    by (simp add: free_def)
  obtain b1 ms1 where m1: "malloc ms = (b1, ms1)" by (cases "malloc ms") auto
  obtain b2 ms2 where m2: "malloc ms1 = (b2, ms2)" by (cases "malloc ms1") auto
  obtain b3 ms3 where m3: "malloc ms2 = (b3, ms3)" by (cases "malloc ms2") auto
  obtain b4 ms4 where m4: "malloc ms3 = (b4, ms4)" by (cases "malloc ms3") auto
  show ?thesis
    unfolding TextTablePrint_render_def render_run_def Let_def fr
    by (cases b1; cases b2; cases b3; cases b4) (simp_all add: m1 m2 m3 m4)
qed

lemma length_metrics_row: "length (metrics_row pc es) = length pc"
  by (induction pc es rule: metrics_row.induct) auto

lemma length_metrics_rows: "length (metrics_rows cols n pc es) = length pc"
  by (induction cols n pc es rule: metrics_rows.induct) (auto simp: length_metrics_row)

text \<open>
  The two border buffers are never written behind their end: a border and its terminating
  NUL take less than \<open>rowLen\<close> bytes.
\<close>

lemma border_fits: "length (border t x posX pc) + 1 < calc_rowLen t posX pc + 1"
proof -
  have "length (concat (map (\<lambda>col. replicate (col_rowMaxTextLen col
            + spacesBetweenBorder t * 2) x @ [charConnectorXY t]) pc)) \<le>
        sum_list (map (\<lambda>col. col_rowMaxTextLen col + spacesBetweenBorder t * 2 + 1
                              + (if col_ansiSeqMaxLen col \<noteq> 0
                                 then col_ansiSeqMaxLen col + length sAnsiSequenceEnd else 0))
                       pc)"
    by (induction pc) auto
  then show ?thesis
    by (simp add: border_def calc_rowLen_def)
qed

section \<open>The end-to-end example\<close>

text \<open>
  Claim C1. Initializing any table and adding the six cells (no ANSI sequences) gives
  six successful calls and the example table. Printing it with the bordered style with
  header, \<open>posX = 0\<close> and two columns returns true and calls the callback exactly seven
  times: the header border, the header row, the header border again, the two lines of
  the first body row (the second with a blank first column), the second body row and the
  closing regular border. All seven lines have 16 characters, and no scratch block stays
  allocated.
\<close>

theorem TextTablePrint_example:
  "TextTableAdd_all (snd (TextTableInit (Some t)))
     [(None, Some ''H1''), (None, Some ''H2''), (None, Some ''R1C1''),
      (None, Some ''R1C2\<newline>R1C2b''), (None, Some ''R2C1''), (None, Some ''R2C2'')] =
     Inr ([True, True, True, True, True, True], Some example_table) \<and>
   (case TextTablePrint (Some example_table) (Some ()) TABSTYLE_REGULAR_HEAD_ON 0 2 [] of
      Inl f \<Rightarrow> False
    | Inr r \<Rightarrow>
        retval r \<and>
        calls r = [(HeadBuf, ''+======+=======+''),
                   (RowBuf, ''| H1   | H2    |''),
                   (HeadBuf, ''+======+=======+''),
                   (RowBuf, ''| R1C1 | R1C2  |''),
                   (RowBuf, ''|      | R1C2b |''),
                   (RowBuf, ''| R2C1 | R2C2  |''),
                   (GridBuf, ''+------+-------+'')] \<and>
        map (\<lambda>c. length (snd c)) (calls r) = [16, 16, 16, 16, 16, 16, 16] \<and>
        leaked r = [])"
proof -
  have "TextTableAdd_all (snd (TextTableInit (Some t)))
     [(None, Some ''H1''), (None, Some ''H2''), (None, Some ''R1C1''),
      (None, Some ''R1C2\<newline>R1C2b''), (None, Some ''R2C1''), (None, Some ''R2C2'')] =
     Inr ([True, True, True, True, True, True], Some example_table)"
    by (simp add: TextTableInit_initialized example_table_def add_defs)
  moreover have
    "(case TextTablePrint (Some example_table) (Some ()) TABSTYLE_REGULAR_HEAD_ON 0 2 [] of
      Inl f \<Rightarrow> False
    | Inr r \<Rightarrow>
        retval r \<and>
        calls r = [(HeadBuf, ''+======+=======+''),
                   (RowBuf, ''| H1   | H2    |''),
                   (HeadBuf, ''+======+=======+''),
                   (RowBuf, ''| R1C1 | R1C2  |''),
                   (RowBuf, ''|      | R1C2b |''),
                   (RowBuf, ''| R2C1 | R2C2  |''),
                   (GridBuf, ''+------+-------+'')] \<and>
        map (\<lambda>c. length (snd c)) (calls r) = [16, 16, 16, 16, 16, 16, 16] \<and>
        leaked r = [])"
    by code_simp
  ultimately show ?thesis
    by blast
qed

section \<open>Scratch blocks on the failure paths\<close>

text \<open>
  Claim C7 at a failing allocation. When the allocation of the row buffer fails the call
  returns false with the column array still allocated; when the allocation of the grid
  buffer fails, the column array and the row buffer stay allocated; when the allocation
  of the header buffer fails, all three earlier blocks stay allocated.
\<close>

theorem TextTablePrint_leaks_on_failed_malloc:
  "TextTablePrint (Some example_table) (Some ()) TABSTYLE_REGULAR_HEAD_ON 0 2 [True, False] =
     Inr \<lparr>retval = False, calls = [], table_after = Some example_table,
          leaked = [PColumn]\<rparr> \<and>
   TextTablePrint (Some example_table) (Some ()) TABSTYLE_REGULAR_HEAD_ON 0 2
       [True, True, False] =
     Inr \<lparr>retval = False, calls = [], table_after = Some example_table,
          leaked = [PColumn, RowBuf]\<rparr> \<and>
   TextTablePrint (Some example_table) (Some ()) TABSTYLE_REGULAR_HEAD_ON 0 2
       [True, True, True, False] =
     Inr \<lparr>retval = False, calls = [], table_after = Some example_table,
          leaked = [PColumn, RowBuf, GridBuf]\<rparr>"
  by code_simp

text \<open>
  The same holds for every table that passes the argument checks: a failed allocation of
  the row buffer leaves the column array allocated.
\<close>

lemma TextTablePrint_render_leaks:
  assumes "rows * columns \<le> length (head t)"
  shows "TextTablePrint_render t tabStyle posX columns rows (True # False # ms) =
           Inr \<lparr>retval = False, calls = [], table_after = Some t, leaked = [PColumn]\<rparr>"
  using assms by (simp add: TextTablePrint_render_run)

text \<open>A return with the value true leaves no scratch block allocated.\<close>

lemma TextTablePrint_success_frees:
  "TextTablePrint table callback tabStyle posX columns ms = Inr r \<Longrightarrow> retval r
     \<Longrightarrow> leaked r = []"
  by (auto simp: TextTablePrint_def TextTablePrint_render_def Let_def free_def
      split: option.splits if_splits prod.splits sum.splits bool.splits)

section \<open>Rejected and accepted arguments\<close>

text \<open>
  The left shift \<open>posX\<close> only moves the lines: it changes neither a fault nor the
  return value of the rendering.
\<close>

lemma row_pass_posX:
  "row_pass t st posX cols (L + posX) pc i frpc row =
     map_sum id (\<lambda>(buf, nl, r). (replicate posX SPC @ buf, nl, r))
       (row_pass t st 0 cols L pc i frpc row)"
  by (auto simp: row_pass_def Let_def split: prod.splits)

lemma print_row_posX:
  "R = L + posX \<Longrightarrow>
   map_sum id snd (print_row t st posX cols R pc g h i ftl frpc row) =
   map_sum id snd (print_row t st 0 cols L pc g' h' i ftl' frpc row)"
proof (induction t st posX cols R pc g h i ftl frpc row arbitrary: ftl'
    rule: print_row.induct)
  case (1 t st posX cols R pc g h i ftl frpc row)
  note R = \<open>R = L + posX\<close>
  show ?case
  proof (cases "row_pass t st 0 cols L pc i frpc row")
    case (Inl f)
    then show ?thesis
      by (subst print_row.simps, subst (2) print_row.simps) (simp add: R row_pass_posX)
  next
    case (Inr x)
    obtain buf nl row' where x: "x = (buf, nl, row')"
      by (cases x) auto
    have rp: "row_pass t st posX cols R pc i frpc row =
        Inr (replicate posX SPC @ buf, nl, row')"
      by (simp add: R row_pass_posX Inr x)
    show ?thesis
    proof (cases nl)
      case True
      from "1.IH" [OF rp refl refl refl True R, of False]
      have "map_sum id snd (print_row t st posX cols R pc g h i False False row') =
            map_sum id snd (print_row t st 0 cols L pc g' h' i False False row')" .
      then show ?thesis
        by (subst print_row.simps, subst (2) print_row.simps)
          (auto simp: rp Inr x True Let_def split: sum.splits)
    next
      case False
      then show ?thesis
        by (subst print_row.simps, subst (2) print_row.simps)
          (simp add: rp Inr x Let_def)
    qed
  qed
qed

lemma print_rows_posX:
  "R = L + posX \<Longrightarrow>
   map_sum id snd (print_rows t st posX cols rows R pc g h i ftl es) =
   map_sum id snd (print_rows t st 0 cols rows L pc g' h' i ftl es)"
proof (induction t st posX cols rows R pc g h i ftl es rule: print_rows.induct)
  case (1 t st posX cols rows R pc g h i ftl es)
  note R = \<open>R = L + posX\<close>
  show ?case
  proof (cases "i < rows")
    case False
    then show ?thesis
      by (subst print_rows.simps, subst (2) print_rows.simps) simp
  next
    case True
    have pr: "map_sum id snd (print_row t st posX cols R pc g h i ftl True (take cols es)) =
        map_sum id snd (print_row t st 0 cols L pc g' h' i ftl True (take cols es))"
      by (rule print_row_posX [OF R])
    show ?thesis
    proof (cases "print_row t st posX cols R pc g h i ftl True (take cols es)")
      case (Inl f)
      with pr True show ?thesis
        by (subst print_rows.simps, subst (2) print_rows.simps)
          (auto split: sum.splits)
    next
      case (Inr x)
      obtain out row' where x: "x = (out, row')"
        by (cases x) auto
      from "1.IH" [OF True Inr x [symmetric] R]
      have ih: "map_sum id snd (print_rows t st posX cols rows R pc g h (i + 1) False
                   (drop cols es)) =
                map_sum id snd (print_rows t st 0 cols rows L pc g' h' (i + 1) False
                   (drop cols es))" .
      from pr Inr x obtain out' where
        p0: "print_row t st 0 cols L pc g' h' i ftl True (take cols es) = Inr (out', row')"
        by (cases "print_row t st 0 cols L pc g' h' i ftl True (take cols es)") auto
      from ih show ?thesis
        by (subst print_rows.simps, subst (2) print_rows.simps)
          (auto simp: True Inr x p0 split: sum.splits)
    qed
  qed
qed

lemma calc_rowLen_posX: "calc_rowLen t posX pc = calc_rowLen t 0 pc + posX"
  by (simp add: calc_rowLen_def)

lemma render_run_posX:
  "map_sum id retval (render_run t tabStyle posX columns rows) =
   map_sum id retval (render_run t tabStyle 0 columns rows)"
proof -
  define pc where "pc = metrics_rows columns rows
      (replicate columns \<lparr>col_rowMaxTextLen = 0, col_ansiSeqMaxLen = 0\<rparr>) (head t)"
  have "map_sum id snd (print_rows t tabStyle posX columns rows (calc_rowLen t posX pc) pc
            (border t (charGridX t) posX pc) (border t (charHeadX t) posX pc) 0 True
            (take (rows * columns) (head t))) =
        map_sum id snd (print_rows t tabStyle 0 columns rows (calc_rowLen t 0 pc) pc
            (border t (charGridX t) 0 pc) (border t (charHeadX t) 0 pc) 0 True
            (take (rows * columns) (head t)))"
    by (rule print_rows_posX) (rule calc_rowLen_posX)
  then show ?thesis
    unfolding render_run_def Let_def pc_def [symmetric]
    by (auto split: sum.splits)
qed

lemma TextTablePrint_render_posX:
  "map_sum id retval (TextTablePrint_render t tabStyle posX columns rows ms) =
   map_sum id retval (TextTablePrint_render t tabStyle 0 columns rows ms)"
proof -
  obtain b1 ms1 where m1: "malloc ms = (b1, ms1)" by (cases "malloc ms") auto
  obtain b2 ms2 where m2: "malloc ms1 = (b2, ms2)" by (cases "malloc ms1") auto
  obtain b3 ms3 where m3: "malloc ms2 = (b3, ms3)" by (cases "malloc ms2") auto
  obtain b4 ms4 where m4: "malloc ms3 = (b4, ms4)" by (cases "malloc ms3") auto
  show ?thesis
    using render_run_posX [of t tabStyle posX columns rows]
    unfolding TextTablePrint_render_run
    by (cases b1; cases b2; cases b3; cases b4) (simp_all add: m1 m2 m3 m4)
qed

lemma TextTablePrint_posX_accepted:
  assumes "posX \<le> TEXT_TABLE_MAX_X_POS"
  shows "map_sum id retval (TextTablePrint table callback tabStyle posX columns ms) =
         map_sum id retval (TextTablePrint table callback tabStyle 0 columns ms)"
proof (cases table)
  case None
  then show ?thesis
    by (simp add: TextTablePrint_None)
next
  case (Some t)
  show ?thesis
  proof (cases "callback = None \<or> columns = 0 \<or> entries t = 0 \<or>
         entries t \<noteq> entries t div columns * columns")
    case True
    with assms show ?thesis
      unfolding Some TextTablePrint_Some by auto
  next
    case False
    with assms show ?thesis
      unfolding Some TextTablePrint_Some
      using TextTablePrint_render_posX [of t tabStyle posX columns "entries t div columns" ms]
      by auto
  qed
qed

lemma not_divisible:
  assumes "(n::nat) mod c \<noteq> 0"
  shows "n \<noteq> n div c * c"
proof
  assume "n = n div c * c"
  then have "c dvd n"
    by (metis dvd_triv_right)
  with assms show False
    by simp
qed

lemma TextTablePrint_rejects_aux:
  assumes "table = None \<or> callback = None \<or> columns = 0 \<or>
           (\<exists>t. table = Some t \<and> (entries t = 0 \<or> entries t mod columns \<noteq> 0)) \<or>
           TEXT_TABLE_MAX_X_POS < posX"
  shows "TextTablePrint table callback tabStyle posX columns ms =
           Inr \<lparr>retval = False, calls = [], table_after = table, leaked = []\<rparr>"
proof (cases table)
  case None
  then show ?thesis
    by (simp add: TextTablePrint_None)
next
  case (Some t)
  with assms not_divisible [of "entries t" columns]
  have "callback = None \<or> TEXT_TABLE_MAX_X_POS < posX \<or> columns = 0 \<or> entries t = 0 \<or>
         entries t \<noteq> entries t div columns * columns"
    by auto
  then show ?thesis
    unfolding Some TextTablePrint_Some by simp
qed

text \<open>
  With arguments that pass every check and allocations that all succeed, the call never
  returns false: it renders and returns true (or runs into undefined behaviour).
\<close>

lemma malloc_succeeds:
  assumes "False \<notin> set ms"
  shows "\<exists>ms'. malloc ms = (True, ms') \<and> False \<notin> set ms'"
  using assms by (cases ms) auto

lemma TextTablePrint_not_rejected:
  assumes "table = Some t \<and> callback \<noteq> None \<and> columns \<noteq> 0 \<and> entries t \<noteq> 0 \<and>
    entries t mod columns = 0 \<and> posX \<le> TEXT_TABLE_MAX_X_POS \<and> False \<notin> set ms"
  shows "map_sum id retval (TextTablePrint table callback tabStyle posX columns ms) \<noteq> Inr False"
proof -
  from assms have "columns dvd entries t"
    by (simp add: mod_eq_0_iff_dvd)
  then have "entries t div columns * columns = entries t"
    by (rule dvd_div_mult_self)
  with assms
  have p: "TextTablePrint table callback tabStyle posX columns ms =
      TextTablePrint_render t tabStyle posX columns (entries t div columns) ms"
    by (simp add: TextTablePrint_Some)
  from assms malloc_succeeds obtain ms1 where m1: "malloc ms = (True, ms1)" "False \<notin> set ms1"
    by blast
  from malloc_succeeds [OF m1(2)] obtain ms2 where
    m2: "malloc ms1 = (True, ms2)" "False \<notin> set ms2"
    by blast
  from malloc_succeeds [OF m2(2)] obtain ms3 where
    m3: "malloc ms2 = (True, ms3)" "False \<notin> set ms3"
    by blast
  from malloc_succeeds [OF m3(2)] obtain ms4 where m4: "malloc ms3 = (True, ms4)"
    by blast
  have "map_sum id retval (render_run t tabStyle posX columns (entries t div columns)) \<noteq>
      Inr False"
    by (simp add: render_run_def Let_def split: sum.splits prod.splits)
  then show ?thesis
    unfolding p TextTablePrint_render_run by (simp add: m1 m2 m3 m4)
qed

text \<open>
  Claim C3. When the table pointer is null, the callback is null, \<open>columns\<close> is 0, the
  table has no entries, the entry count is not a multiple of \<open>columns\<close>, or \<open>posX\<close>
  exceeds 30, the call returns false, calls the callback not once, leaves the table as it
  is and holds no scratch block. With none of these conditions and every allocation
  succeeding the call does not return false, and with \<open>posX = 30\<close> the call faults or
  returns exactly what it does with \<open>posX = 0\<close>: the maximum itself is not rejected.
\<close>

theorem TextTablePrint_argument_checks:
  "(table = None \<or> callback = None \<or> columns = 0 \<or>
    (\<exists>t. table = Some t \<and> (entries t = 0 \<or> entries t mod columns \<noteq> 0)) \<or>
    TEXT_TABLE_MAX_X_POS < posX
    \<longrightarrow> TextTablePrint table callback tabStyle posX columns ms =
          Inr \<lparr>retval = False, calls = [], table_after = table, leaked = []\<rparr>) \<and>
   (table = Some t \<and> callback \<noteq> None \<and> columns \<noteq> 0 \<and> entries t \<noteq> 0 \<and>
    entries t mod columns = 0 \<and> posX \<le> TEXT_TABLE_MAX_X_POS \<and> False \<notin> set ms
    \<longrightarrow> map_sum id retval (TextTablePrint table callback tabStyle posX columns ms) \<noteq>
          Inr False) \<and>
   map_sum id retval
     (TextTablePrint table callback tabStyle TEXT_TABLE_MAX_X_POS columns ms) =
   map_sum id retval (TextTablePrint table callback tabStyle 0 columns ms)"
  using TextTablePrint_rejects_aux [of table callback columns posX tabStyle ms]
    TextTablePrint_not_rejected [where table = table and t = t and callback = callback
      and columns = columns and posX = posX and ms = ms and tabStyle = tabStyle]
    TextTablePrint_posX_accepted [of TEXT_TABLE_MAX_X_POS table callback tabStyle columns ms]
  by blast

theorem TextTablePrint_argument_checks_witness:
  "TextTablePrint (Some example_table) (Some ()) TABSTYLE_REGULAR_HEAD_ON 31 2 [] =
     Inr \<lparr>retval = False, calls = [], table_after = Some example_table, leaked = []\<rparr> \<and>
   TextTablePrint (Some example_table) (Some ()) TABSTYLE_REGULAR_HEAD_ON 0 4 [] =
     Inr \<lparr>retval = False, calls = [], table_after = Some example_table, leaked = []\<rparr> \<and>
   map_sum id retval
     (TextTablePrint (Some example_table) (Some ()) TABSTYLE_REGULAR_HEAD_ON 30 2 []) \<noteq>
     Inr False \<and>
   map_sum id retval
     (TextTablePrint (Some example_table) (Some ()) TABSTYLE_REGULAR_HEAD_ON
        TEXT_TABLE_MAX_X_POS 2 []) = Inr True"
proof -
  have h1: "TEXT_TABLE_MAX_X_POS < 31"
    by (simp add: TEXT_TABLE_MAX_X_POS_def)
  have h2: "\<exists>t. Some example_table = Some t \<and> (entries t = 0 \<or> entries t mod 4 \<noteq> 0)"
    by (simp add: example_table_def initialized_def)
  have h3: "Some example_table = Some example_table \<and> Some () \<noteq> None \<and> (2::nat) \<noteq> 0 \<and>
      entries example_table \<noteq> 0 \<and> entries example_table mod 2 = 0 \<and>
      30 \<le> TEXT_TABLE_MAX_X_POS \<and> False \<notin> set []"
    by (simp add: example_table_def initialized_def TEXT_TABLE_MAX_X_POS_def)
  have e: "map_sum id retval
      (TextTablePrint (Some example_table) (Some ()) TABSTYLE_REGULAR_HEAD_ON 0 2 []) =
      Inr True"
    by code_simp
  from TextTablePrint_argument_checks
      [where table = "Some example_table" and callback = "Some ()" and columns = 2
         and posX = 31 and tabStyle = TABSTYLE_REGULAR_HEAD_ON and ms = "[]"] h1
  have 1: "TextTablePrint (Some example_table) (Some ()) TABSTYLE_REGULAR_HEAD_ON 31 2 [] =
     Inr \<lparr>retval = False, calls = [], table_after = Some example_table, leaked = []\<rparr>"
    by blast
  from TextTablePrint_argument_checks
      [where table = "Some example_table" and callback = "Some ()" and columns = 4
         and posX = 0 and tabStyle = TABSTYLE_REGULAR_HEAD_ON and ms = "[]"] h2
  have 2: "TextTablePrint (Some example_table) (Some ()) TABSTYLE_REGULAR_HEAD_ON 0 4 [] =
     Inr \<lparr>retval = False, calls = [], table_after = Some example_table, leaked = []\<rparr>"
    by blast
  from TextTablePrint_argument_checks
      [where table = "Some example_table" and callback = "Some ()" and columns = 2
         and posX = 30 and tabStyle = TABSTYLE_REGULAR_HEAD_ON and ms = "[]"
         and t = example_table] h3
  have 3: "map_sum id retval
     (TextTablePrint (Some example_table) (Some ()) TABSTYLE_REGULAR_HEAD_ON 30 2 []) \<noteq>
     Inr False"
    by blast
  from TextTablePrint_argument_checks
      [where table = "Some example_table" and callback = "Some ()" and columns = 2
         and posX = 0 and tabStyle = TABSTYLE_REGULAR_HEAD_ON and ms = "[]"] e
  have 4: "map_sum id retval
     (TextTablePrint (Some example_table) (Some ()) TABSTYLE_REGULAR_HEAD_ON
        TEXT_TABLE_MAX_X_POS 2 []) = Inr True"
    by simp
  from 1 2 3 4 show ?thesis
    by blast
qed

section \<open>The border lines of a rendered table\<close>

lemma print_row_first_line:
  "print_row t st posX cols R pc g h i True frpc row =
     map_sum id (\<lambda>(out, r). (first_line st g h @ out, r))
       (print_row t st posX cols R pc g h i False frpc row)"
  by (subst print_row.simps, subst (2) print_row.simps)
    (auto simp: Let_def split: sum.splits prod.splits)

lemma print_row_RowBuf:
  "print_row t st posX cols R pc g h i ftl frpc row = Inr (out, row') \<Longrightarrow> \<not> ftl \<Longrightarrow>
     out \<noteq> [] \<and> list_all (\<lambda>c. fst c = RowBuf) out"
proof (induction t st posX cols R pc g h i ftl frpc row arbitrary: out row'
    rule: print_row.induct)
  case (1 t st posX cols R pc g h i ftl frpc row)
  from "1.prems" obtain buf nl row1 where
    rp: "row_pass t st posX cols R pc i frpc row = Inr (buf, nl, row1)"
    by (subst (asm) print_row.simps) (auto split: sum.splits)
  show ?case
  proof (cases nl)
    case False
    with "1.prems" rp show ?thesis
      by (subst (asm) print_row.simps)
        (auto simp: Let_def PrintLineCallbackFunction_def)
  next
    case True
    with "1.prems" rp obtain outs where
      rec: "print_row t st posX cols R pc g h i False False row1 = Inr (outs, row')"
      and out: "out = PrintLineCallbackFunction RowBuf buf @ outs"
      by (subst (asm) print_row.simps) (auto simp: Let_def split: sum.splits)
    from "1.IH" [OF rp refl refl refl True rec] out show ?thesis
      by (simp add: PrintLineCallbackFunction_def)
  qed
qed

lemma print_rows_calls:
  "print_rows t st posX cols rows R pc g h i ftl es = Inr (out, es') \<Longrightarrow>
     out = concat (map (\<lambda>k. (if ftl \<and> k = i then first_line st g h else [])
                              @ row_out t st posX cols R pc g h k
                                  (take cols (drop ((k - i) * cols) es))
                              @ after_row st rows k g h) [i..<rows]) \<and>
     (\<forall>k. i \<le> k \<and> k < rows \<longrightarrow>
        (\<exists>x. print_row t st posX cols R pc g h k False True
                (take cols (drop ((k - i) * cols) es)) = Inr x))"
proof (induction t st posX cols rows R pc g h i ftl es arbitrary: out es'
    rule: print_rows.induct)
  case (1 t st posX cols rows R pc g h i ftl es)
  show ?case
  proof (cases "i < rows")
    case False
    with "1.prems" have a: "out = []"
      by (subst (asm) print_rows.simps) simp
    from False have b: "[i..<rows] = []"
      by simp
    from False have c: "\<forall>k. i \<le> k \<and> k < rows \<longrightarrow>
        (\<exists>x. print_row t st posX cols R pc g h k False True
                (take cols (drop ((k - i) * cols) es)) = Inr x)"
      by auto
    show ?thesis
      unfolding a b by (rule conjI) (simp, rule c)
  next
    case True
    from "1.prems" True obtain o1 row1 outs es2 where
      p1: "print_row t st posX cols R pc g h i ftl True (take cols es) = Inr (o1, row1)"
      and p2: "print_rows t st posX cols rows R pc g h (i + 1) False (drop cols es) =
                 Inr (outs, es2)"
      and out: "out = o1 @ after_row st rows i g h @ outs"
      by (subst (asm) print_rows.simps) (auto split: sum.splits)
    from p1 obtain o1' where
      p1': "print_row t st posX cols R pc g h i False True (take cols es) = Inr (o1', row1)"
      and o1: "o1 = (if ftl then first_line st g h else []) @ o1'"
      by (cases ftl;
          cases "print_row t st posX cols R pc g h i False True (take cols es)")
        (auto simp: print_row_first_line)
    have ro: "row_out t st posX cols R pc g h i (take cols es) = o1'"
      by (simp add: row_out_def p1')
    from "1.IH" [OF True p1 refl p2]
    have ih1: "outs = concat (map (\<lambda>k. row_out t st posX cols R pc g h k
                                  (take cols (drop ((k - (i + 1)) * cols) (drop cols es)))
                              @ after_row st rows k g h) [i + 1..<rows])"
      and ih2: "\<And>k. i + 1 \<le> k \<Longrightarrow> k < rows \<Longrightarrow>
        \<exists>x. print_row t st posX cols R pc g h k False True
                (take cols (drop ((k - (i + 1)) * cols) (drop cols es))) = Inr x"
      by auto
    have arith: "(k - Suc i) * cols + cols = (k - i) * cols" if "Suc i \<le> k" for k
    proof -
      from that obtain d where "k = Suc i + d"
        by (metis le_Suc_ex)
      then show ?thesis
        by simp
    qed
    have shift: "drop ((k - (i + 1)) * cols) (drop cols es) = drop ((k - i) * cols) es"
      if "i + 1 \<le> k" for k
      using arith [of k] that by (simp add: add.commute)
    have outs: "outs = concat (map (\<lambda>k. (if ftl \<and> k = i then first_line st g h else [])
                              @ row_out t st posX cols R pc g h k
                                  (take cols (drop ((k - i) * cols) es))
                              @ after_row st rows k g h) [i + 1..<rows])"
      unfolding ih1
      by (rule arg_cong [where f = concat], rule map_cong) (auto simp: arith)
    have upt: "[i..<rows] = i # [i + 1..<rows]"
      using True by (simp add: upt_conv_Cons)
    have part1: "out = concat (map (\<lambda>k. (if ftl \<and> k = i then first_line st g h else [])
                              @ row_out t st posX cols R pc g h k
                                  (take cols (drop ((k - i) * cols) es))
                              @ after_row st rows k g h) [i..<rows])"
      unfolding upt using outs by (simp add: out o1 ro)
    have part2: "\<exists>x. print_row t st posX cols R pc g h k False True
                (take cols (drop ((k - i) * cols) es)) = Inr x"
      if "i \<le> k" "k < rows" for k
    proof (cases "k = i")
      case True
      then show ?thesis
        by (simp add: p1')
    next
      case False
      with that have "i + 1 \<le> k"
        by simp
      from ih2 [OF this that(2)] shift [OF this] show ?thesis
        by simp
    qed
    from part1 part2 show ?thesis
      by blast
  qed
qed

lemma TextTablePrint_success:
  assumes "TextTablePrint (Some t) callback tabStyle posX columns ms = Inr r" and "retval r"
  shows "entries t \<noteq> 0" and "entries t = entries t div columns * columns"
    and "render_run t tabStyle posX columns (entries t div columns) = Inr r"
    and "entries t div columns * columns \<le> length (head t)"
proof -
  from assms have g: "\<not> (callback = None \<or> TEXT_TABLE_MAX_X_POS < posX \<or> columns = 0 \<or>
      entries t = 0 \<or> entries t \<noteq> entries t div columns * columns)"
    by (auto simp: TextTablePrint_Some split: if_splits)
  then show "entries t \<noteq> 0" and "entries t = entries t div columns * columns"
    by auto
  from assms g
  have r: "TextTablePrint_render t tabStyle posX columns (entries t div columns) ms = Inr r"
    by (simp add: TextTablePrint_Some)
  obtain b1 ms1 where m1: "malloc ms = (b1, ms1)" by (cases "malloc ms") auto
  obtain b2 ms2 where m2: "malloc ms1 = (b2, ms2)" by (cases "malloc ms1") auto
  obtain b3 ms3 where m3: "malloc ms2 = (b3, ms3)" by (cases "malloc ms2") auto
  obtain b4 ms4 where m4: "malloc ms3 = (b4, ms4)" by (cases "malloc ms3") auto
  from r assms(2) show "render_run t tabStyle posX columns (entries t div columns) = Inr r"
    unfolding TextTablePrint_render_run
    by (cases b1; cases b2; cases b3; cases b4)
      (auto simp: m1 m2 m3 m4 split: if_splits)
  from r assms(2) show "entries t div columns * columns \<le> length (head t)"
    unfolding TextTablePrint_render_run
    by (cases b1; cases b2; cases b3; cases b4)
      (auto simp: m1 m2 m3 m4 split: if_splits)
qed

lemma take_chunk:
  assumes "k < rows"
  shows "take cols (drop (k * cols) (take (rows * cols) xs)) = take cols (drop (k * cols) xs)"
proof -
  from assms obtain d where "rows = Suc (k + d)"
    by (metis less_imp_Suc_add)
  then have "cols \<le> rows * cols - k * cols"
    by (simp add: add_mult_distrib)
  then show ?thesis
    by (simp add: drop_take min_def)
qed

lemma concat_trailing_divider:
  assumes "m < n"
  shows "concat (map (\<lambda>k. f k @ (if k < n - 1 then [G] else [])) [m..<n]) @ [G] =
         concat (map (\<lambda>k. f k @ [G]) [m..<n])"
proof -
  from assms obtain n' where n: "n = Suc n'" and m: "m \<le> n'"
    by (cases n) auto
  have "concat (map (\<lambda>k. f k @ (if k < n' then [G] else [])) [m..<n']) =
        concat (map (\<lambda>k. f k @ [G]) [m..<n'])"
    by (rule arg_cong [where f = concat], rule map_cong) auto
  with m show ?thesis
    by (simp add: n)
qed

lemma schedule_regular:
  assumes "rows \<noteq> 0"
  shows "concat (map (\<lambda>k. (if k = 0 then [G] else []) @ rc k @ []) [0..<rows]) @ [G] =
         G # concat (map rc [0..<rows]) @ [G]"
proof -
  from assms have upt: "[0..<rows] = 0 # [Suc 0..<rows]"
    by (simp add: upt_conv_Cons)
  have "concat (map (\<lambda>k. (if k = 0 then [G] else []) @ rc k @ []) [Suc 0..<rows]) =
        concat (map rc [Suc 0..<rows])"
    by (rule arg_cong [where f = concat], rule map_cong) auto
  then show ?thesis
    unfolding upt by simp
qed

lemma schedule_separated:
  assumes "1 < rows"
  shows "concat (map (\<lambda>k. (if k = 0 then [G] else []) @ rc k
                       @ (if k = 0 \<or> k < rows - 1 then [G] else [])) [0..<rows]) @ [G] =
         G # concat (map (\<lambda>i. rc i @ [G]) [0..<rows])"
proof -
  from assms have upt: "[0..<rows] = 0 # [Suc 0..<rows]"
    by (simp add: upt_conv_Cons)
  have e: "concat (map (\<lambda>k. (if k = 0 then [G] else []) @ rc k
                       @ (if k = 0 \<or> k < rows - 1 then [G] else [])) [Suc 0..<rows]) =
        concat (map (\<lambda>k. rc k @ (if k < rows - 1 then [G] else [])) [Suc 0..<rows])"
    by (rule arg_cong [where f = concat], rule map_cong) auto
  from assms have lt: "Suc 0 < rows"
    by simp
  from concat_trailing_divider [OF lt, of rc G] e show ?thesis
    unfolding upt by simp
qed

lemma TextTablePrint_calls:
  assumes "TextTablePrint (Some t) callback tabStyle posX columns ms = Inr r" and "retval r"
  shows "calls r =
           concat (map (\<lambda>k. (if k = 0
                               then first_line tabStyle (grid_buf t posX columns)
                                      (head_buf t posX columns)
                               else [])
                            @ row_calls t tabStyle posX columns k
                            @ after_row tabStyle (entries t div columns) k
                                (grid_buf t posX columns) (head_buf t posX columns))
                       [0..<entries t div columns])
           @ (if tabStyle \<noteq> TABSTYLE_COMACT then [grid_call t posX columns] else [])"
    and "\<forall>i<entries t div columns.
           row_calls t tabStyle posX columns i \<noteq> [] \<and>
           list_all (\<lambda>c. fst c = RowBuf) (row_calls t tabStyle posX columns i)"
    and "\<forall>i<entries t div columns.
           \<exists>row'. print_row t tabStyle posX columns (calc_rowLen t posX (pColumn_of t columns))
                    (pColumn_of t columns) (grid_buf t posX columns) (head_buf t posX columns)
                    i False True (take columns (drop (i * columns) (head t))) =
                  Inr (row_calls t tabStyle posX columns i, row')"
proof -
  define rows where "rows = entries t div columns"
  define pc where "pc = pColumn_of t columns"
  define g where "g = grid_buf t posX columns"
  define h where "h = head_buf t posX columns"
  define R where "R = calc_rowLen t posX pc"
  from TextTablePrint_success(3) [OF assms]
  obtain out es' where
    pr: "print_rows t tabStyle posX columns rows R pc g h 0 True
           (take (rows * columns) (head t)) = Inr (out, es')"
    and r: "calls r = out @ (if tabStyle \<noteq> TABSTYLE_COMACT
                             then PrintLineCallbackFunction GridBuf g else [])"
    unfolding render_run_def Let_def rows_def pc_def g_def h_def R_def pColumn_of_def
      grid_buf_def head_buf_def
    by (auto split: sum.splits)
  from print_rows_calls [OF pr]
  have out: "out = concat (map (\<lambda>k. (if k = 0 then first_line tabStyle g h else [])
                              @ row_out t tabStyle posX columns R pc g h k
                                  (take columns (drop (k * columns)
                                     (take (rows * columns) (head t))))
                              @ after_row tabStyle rows k g h) [0..<rows])"
    and ok: "\<And>k. k < rows \<Longrightarrow>
        \<exists>x. print_row t tabStyle posX columns R pc g h k False True
                (take columns (drop (k * columns) (take (rows * columns) (head t)))) =
              Inr x"
    by auto
  have rc: "row_out t tabStyle posX columns R pc g h k
              (take columns (drop (k * columns) (take (rows * columns) (head t)))) =
            row_calls t tabStyle posX columns k" if "k < rows" for k
    using that by (simp add: row_calls_def take_chunk R_def pc_def g_def h_def)
  have "out = concat (map (\<lambda>k. (if k = 0 then first_line tabStyle g h else [])
                              @ row_calls t tabStyle posX columns k
                              @ after_row tabStyle rows k g h) [0..<rows])"
    unfolding out
    by (rule arg_cong [where f = concat], rule map_cong) (auto simp: rc)
  with r have "calls r = concat (map (\<lambda>k. (if k = 0 then first_line tabStyle g h else [])
                              @ row_calls t tabStyle posX columns k
                              @ after_row tabStyle rows k g h) [0..<rows])
                 @ (if tabStyle \<noteq> TABSTYLE_COMACT then [(GridBuf, c_str g)] else [])"
    by (simp add: PrintLineCallbackFunction_def)
  then show "calls r =
           concat (map (\<lambda>k. (if k = 0
                               then first_line tabStyle (grid_buf t posX columns)
                                      (head_buf t posX columns)
                               else [])
                            @ row_calls t tabStyle posX columns k
                            @ after_row tabStyle (entries t div columns) k
                                (grid_buf t posX columns) (head_buf t posX columns))
                       [0..<entries t div columns])
           @ (if tabStyle \<noteq> TABSTYLE_COMACT then [grid_call t posX columns] else [])"
    unfolding rows_def g_def h_def grid_call_def .
  show "\<forall>i<entries t div columns.
           row_calls t tabStyle posX columns i \<noteq> [] \<and>
           list_all (\<lambda>c. fst c = RowBuf) (row_calls t tabStyle posX columns i)"
  proof (intro allI impI)
    fix i assume "i < entries t div columns"
    then have i: "i < rows"
      by (simp add: rows_def)
    from ok [OF i] obtain o1 r1 where
      p: "print_row t tabStyle posX columns R pc g h i False True
            (take columns (drop (i * columns) (take (rows * columns) (head t)))) =
          Inr (o1, r1)"
      by auto
    from print_row_RowBuf [OF p] have "o1 \<noteq> [] \<and> list_all (\<lambda>c. fst c = RowBuf) o1"
      by simp
    moreover from p rc [OF i] have "row_calls t tabStyle posX columns i = o1"
      by (simp add: row_out_def)
    ultimately show "row_calls t tabStyle posX columns i \<noteq> [] \<and>
           list_all (\<lambda>c. fst c = RowBuf) (row_calls t tabStyle posX columns i)"
      by simp
  qed
  show "\<forall>i<entries t div columns.
           \<exists>row'. print_row t tabStyle posX columns (calc_rowLen t posX (pColumn_of t columns))
                    (pColumn_of t columns) (grid_buf t posX columns) (head_buf t posX columns)
                    i False True (take columns (drop (i * columns) (head t))) =
                  Inr (row_calls t tabStyle posX columns i, row')"
  proof (intro allI impI)
    fix i assume "i < entries t div columns"
    then have i: "i < rows"
      by (simp add: rows_def)
    from ok [OF i] obtain o1 r1 where
      p: "print_row t tabStyle posX columns R pc g h i False True
            (take columns (drop (i * columns) (take (rows * columns) (head t)))) =
          Inr (o1, r1)"
      by auto
    from p rc [OF i] have o1: "row_calls t tabStyle posX columns i = o1"
      by (simp add: row_out_def)
    from p have "print_row t tabStyle posX columns R pc g h i False True
            (take columns (drop (i * columns) (head t))) =
          Inr (row_calls t tabStyle posX columns i, r1)"
      unfolding take_chunk [OF i] o1 .
    then show "\<exists>row'. print_row t tabStyle posX columns
                    (calc_rowLen t posX (pColumn_of t columns))
                    (pColumn_of t columns) (grid_buf t posX columns) (head_buf t posX columns)
                    i False True (take columns (drop (i * columns) (head t))) =
                  Inr (row_calls t tabStyle posX columns i, row')"
      unfolding R_def pc_def g_def h_def by blast
  qed
qed

text \<open>
  Claim C2, as the code has it. Let a render call return true. With the bordered style
  without header the callback gets the regular border once before row 0, then the lines
  of all rows with nothing in between, then the regular border once after the last row.
  With the separated style without header and a table of at least two rows it gets the
  regular border before row 0 and once after the lines of every row, the last row
  included. The lines of each row are at least one, and all of them are calls that pass
  the row buffer.
\<close>

theorem TextTablePrint_no_header_dividers:
  assumes "TextTablePrint (Some t) callback tabStyle posX columns ms = Inr r" and "retval r"
  shows "(tabStyle = TABSTYLE_REGULAR_HEAD_OFF \<longrightarrow>
            calls r = grid_call t posX columns
                        # concat (map (row_calls t tabStyle posX columns)
                                    [0..<entries t div columns])
                        @ [grid_call t posX columns]) \<and>
         (tabStyle = TABSTYLE_SEPARATED_HEAD_OFF \<and> 1 < entries t div columns \<longrightarrow>
            calls r = grid_call t posX columns
                        # concat (map (\<lambda>i. row_calls t tabStyle posX columns i
                                            @ [grid_call t posX columns])
                                    [0..<entries t div columns])) \<and>
         (\<forall>i<entries t div columns.
            row_calls t tabStyle posX columns i \<noteq> [] \<and>
            list_all (\<lambda>c. fst c = RowBuf) (row_calls t tabStyle posX columns i))"
proof -
  define rows where "rows = entries t div columns"
  define G where "G = grid_call t posX columns"
  define rc where "rc = row_calls t tabStyle posX columns"
  have "rows \<noteq> 0"
  proof
    assume z: "rows = 0"
    from TextTablePrint_success(2) [OF assms] have "entries t = rows * columns"
      by (simp only: rows_def)
    with z TextTablePrint_success(1) [OF assms] show False
      by simp
  qed
  define g where "g = grid_buf t posX columns"
  define h where "h = head_buf t posX columns"
  have G: "PrintLineCallbackFunction GridBuf g = [G]"
    by (simp add: PrintLineCallbackFunction_def G_def grid_call_def g_def)
  from TextTablePrint_calls(1) [OF assms]
  have c: "calls r = concat (map (\<lambda>k. (if k = 0 then first_line tabStyle g h else [])
                              @ rc k @ after_row tabStyle rows k g h) [0..<rows])
                 @ (if tabStyle \<noteq> TABSTYLE_COMACT then [G] else [])"
    unfolding rows_def G_def rc_def g_def h_def .
  have reg: "calls r = G # concat (map rc [0..<rows]) @ [G]"
    if st: "tabStyle = TABSTYLE_REGULAR_HEAD_OFF"
  proof -
    have fl: "first_line tabStyle g h = [G]"
      by (simp add: st first_line_def G)
    have ar: "after_row tabStyle rows k g h = []" for k
      by (simp add: st after_row_def)
    have "calls r =
        concat (map (\<lambda>k. (if k = 0 then [G] else []) @ rc k @ []) [0..<rows]) @ [G]"
      unfolding c fl ar by (simp add: st)
    also note schedule_regular [OF \<open>rows \<noteq> 0\<close>]
    finally show ?thesis .
  qed
  have sep: "calls r = G # concat (map (\<lambda>i. rc i @ [G]) [0..<rows])"
    if st: "tabStyle = TABSTYLE_SEPARATED_HEAD_OFF" and two: "1 < rows"
  proof -
    have fl: "first_line tabStyle g h = [G]"
      by (simp add: st first_line_def G)
    have ar: "after_row tabStyle rows k g h = (if k = 0 \<or> k < rows - 1 then [G] else [])"
      for k
      by (simp add: st after_row_def G)
    have "calls r =
        concat (map (\<lambda>k. (if k = 0 then [G] else []) @ rc k
                       @ (if k = 0 \<or> k < rows - 1 then [G] else [])) [0..<rows]) @ [G]"
      unfolding c fl ar by (simp add: st)
    also note schedule_separated [OF two]
    finally show ?thesis .
  qed
  from reg sep TextTablePrint_calls(2) [OF assms] show ?thesis
    by (simp add: rows_def G_def rc_def)
qed

theorem TextTablePrint_no_header_dividers_witness:
  "(\<exists>r. TextTablePrint (Some example_table) (Some ()) TABSTYLE_REGULAR_HEAD_OFF 0 2 [] = Inr r \<and>
        retval r \<and>
        calls r = [(GridBuf, ''+------+-------+''),
                   (RowBuf, ''| H1   | H2    |''),
                   (RowBuf, ''| R1C1 | R1C2  |''),
                   (RowBuf, ''|      | R1C2b |''),
                   (RowBuf, ''| R2C1 | R2C2  |''),
                   (GridBuf, ''+------+-------+'')] \<and>
        calls r = grid_call example_table 0 2
                    # concat (map (row_calls example_table TABSTYLE_REGULAR_HEAD_OFF 0 2)
                                [0..<entries example_table div 2])
                    @ [grid_call example_table 0 2]) \<and>
   1 < entries example_table div 2 \<and>
   (\<exists>r. TextTablePrint (Some example_table) (Some ()) TABSTYLE_SEPARATED_HEAD_OFF 0 2 [] = Inr r \<and>
        retval r \<and>
        calls r = [(GridBuf, ''+------+-------+''),
                   (RowBuf, ''| H1   | H2    |''),
                   (GridBuf, ''+------+-------+''),
                   (RowBuf, ''| R1C1 | R1C2  |''),
                   (RowBuf, ''|      | R1C2b |''),
                   (GridBuf, ''+------+-------+''),
                   (RowBuf, ''| R2C1 | R2C2  |''),
                   (GridBuf, ''+------+-------+'')] \<and>
        calls r = grid_call example_table 0 2
                    # concat (map (\<lambda>i. row_calls example_table TABSTYLE_SEPARATED_HEAD_OFF 0 2 i
                                        @ [grid_call example_table 0 2])
                                [0..<entries example_table div 2]))"
proof -
  have a: "TextTablePrint (Some example_table) (Some ()) TABSTYLE_REGULAR_HEAD_OFF 0 2 [] =
     Inr \<lparr>retval = True,
          calls = [(GridBuf, ''+------+-------+''),
                   (RowBuf, ''| H1   | H2    |''),
                   (RowBuf, ''| R1C1 | R1C2  |''),
                   (RowBuf, ''|      | R1C2b |''),
                   (RowBuf, ''| R2C1 | R2C2  |''),
                   (GridBuf, ''+------+-------+'')],
          table_after = Some example_cursors_at_end, leaked = []\<rparr>"
    by code_simp
  have b: "TextTablePrint (Some example_table) (Some ()) TABSTYLE_SEPARATED_HEAD_OFF 0 2 [] =
     Inr \<lparr>retval = True,
          calls = [(GridBuf, ''+------+-------+''),
                   (RowBuf, ''| H1   | H2    |''),
                   (GridBuf, ''+------+-------+''),
                   (RowBuf, ''| R1C1 | R1C2  |''),
                   (RowBuf, ''|      | R1C2b |''),
                   (GridBuf, ''+------+-------+''),
                   (RowBuf, ''| R2C1 | R2C2  |''),
                   (GridBuf, ''+------+-------+'')],
          table_after = Some example_cursors_at_end, leaked = []\<rparr>"
    by code_simp
  have two: "1 < entries example_table div 2"
    by (simp add: example_table_def)
  from TextTablePrint_no_header_dividers [OF a] TextTablePrint_no_header_dividers [OF b] a b two
  show ?thesis
    by simp
qed

text \<open>
  Claim C2 as stated fails: with either style without header the first call of the
  callback passes the regular border, before the line of row 0.
\<close>

theorem TextTablePrint_no_header_top_border_counterexample:
  "(case TextTablePrint (Some example_table) (Some ()) TABSTYLE_REGULAR_HEAD_OFF 0 2 [] of
      Inl f \<Rightarrow> False
    | Inr r \<Rightarrow>
        retval r \<and>
        calls r = [(GridBuf, ''+------+-------+''),
                   (RowBuf, ''| H1   | H2    |''),
                   (RowBuf, ''| R1C1 | R1C2  |''),
                   (RowBuf, ''|      | R1C2b |''),
                   (RowBuf, ''| R2C1 | R2C2  |''),
                   (GridBuf, ''+------+-------+'')] \<and>
        fst (hd (calls r)) = GridBuf) \<and>
   (case TextTablePrint (Some example_table) (Some ()) TABSTYLE_SEPARATED_HEAD_OFF 0 2 [] of
      Inl f \<Rightarrow> False
    | Inr r \<Rightarrow>
        retval r \<and>
        calls r = [(GridBuf, ''+------+-------+''),
                   (RowBuf, ''| H1   | H2    |''),
                   (GridBuf, ''+------+-------+''),
                   (RowBuf, ''| R1C1 | R1C2  |''),
                   (RowBuf, ''|      | R1C2b |''),
                   (GridBuf, ''+------+-------+''),
                   (RowBuf, ''| R2C1 | R2C2  |''),
                   (GridBuf, ''+------+-------+'')] \<and>
        fst (hd (calls r)) = GridBuf)"
  by code_simp

text \<open>
  A separated table of a single row is not covered by the statement above. The branch that
  follows row 0 passes the regular border without the test \<^verbatim>\<open>i < (rows - 1)\<close> of the
  branch for the other rows, and the closing border follows it: the callback gets the
  regular border twice in a row.
\<close>

lemma TextTablePrint_separated_single_row:
  "TextTablePrint (Some (example_table\<lparr>head := take 2 (head example_table), entries := 2\<rparr>))
       (Some ()) TABSTYLE_SEPARATED_HEAD_OFF 0 2 [] =
     Inr \<lparr>retval = True,
          calls = [(GridBuf, ''+----+----+''),
                   (RowBuf, ''| H1 | H2 |''),
                   (GridBuf, ''+----+----+''),
                   (GridBuf, ''+----+----+'')],
          table_after =
            Some (example_table\<lparr>head := take 2 (head example_cursors_at_end), entries := 2\<rparr>),
          leaked = []\<rparr>"
  by code_simp

section \<open>The header separator is never drawn\<close>

lemma write_cell_style:
  "same_style t t' \<Longrightarrow>
     write_cell t st cols i frpc j col e = write_cell t' st cols i frpc j col e"
  by (cases st) (auto simp: write_cell_def same_style_def Let_def split: prod.splits)

lemma write_columns_style:
  "same_style t t' \<Longrightarrow>
     write_columns t st cols i frpc j pc es = write_columns t' st cols i frpc j pc es"
proof (induction t st cols i frpc j pc es rule: write_columns.induct)
  case (1 t st cols i frpc j col pc e es)
  obtain o1 n1 e1 where w: "write_cell t st cols i frpc j col e = (o1, n1, e1)"
    by (cases "write_cell t st cols i frpc j col e") auto
  from "1.IH" [OF w [symmetric] refl "1.prems"] w write_cell_style [OF "1.prems"] show ?case
    by simp
qed simp_all

lemma closing_style: "same_style t t' \<Longrightarrow> closing t st i = closing t' st i"
  by (cases st) (simp_all add: closing_def same_style_def)

lemma row_pass_style:
  "same_style t t' \<Longrightarrow>
     row_pass t st posX cols R pc i frpc row = row_pass t' st posX cols R pc i frpc row"
  by (simp add: row_pass_def write_columns_style [of t t'] closing_style [of t t'])

lemma print_row_style:
  "same_style t t' \<Longrightarrow>
     print_row t st posX cols R pc g h i ftl frpc row =
     print_row t' st posX cols R pc g h i ftl frpc row"
proof (induction t st posX cols R pc g h i ftl frpc row rule: print_row.induct)
  case (1 t st posX cols R pc g h i ftl frpc row)
  note rp = row_pass_style [OF "1.prems", of st posX cols R pc i frpc row]
  show ?case
  proof (cases "row_pass t st posX cols R pc i frpc row")
    case (Inl f)
    with rp have "row_pass t' st posX cols R pc i frpc row = Inl f"
      by simp
    with Inl show ?thesis
      by (subst print_row.simps, subst (2) print_row.simps) simp
  next
    case (Inr x)
    obtain buf nl row' where x: "x = (buf, nl, row')"
      by (cases x) auto
    from rp Inr x have rp': "row_pass t' st posX cols R pc i frpc row = Inr (buf, nl, row')"
      by simp
    show ?thesis
    proof (cases nl)
      case True
      from "1.IH" [OF Inr [unfolded x] refl refl refl True "1.prems"] show ?thesis
        by (subst print_row.simps, subst (2) print_row.simps) (simp add: rp' Inr x True)
    next
      case False
      then show ?thesis
        by (subst print_row.simps, subst (2) print_row.simps) (simp add: rp' Inr x)
    qed
  qed
qed

lemma print_rows_style:
  "same_style t t' \<Longrightarrow>
     print_rows t st posX cols rows R pc g h i ftl es =
     print_rows t' st posX cols rows R pc g h i ftl es"
proof (induction t st posX cols rows R pc g h i ftl es rule: print_rows.induct)
  case (1 t st posX cols rows R pc g h i ftl es)
  note pr = print_row_style [OF "1.prems", of st posX cols R pc g h i ftl True "take cols es"]
  show ?case
  proof (cases "i < rows")
    case False
    then show ?thesis
      by (subst print_rows.simps, subst (2) print_rows.simps) simp
  next
    case True
    show ?thesis
    proof (cases "print_row t st posX cols R pc g h i ftl True (take cols es)")
      case (Inl f)
      with pr have "print_row t' st posX cols R pc g h i ftl True (take cols es) = Inl f"
        by simp
      with Inl True show ?thesis
        by (subst print_rows.simps, subst (2) print_rows.simps) simp
    next
      case (Inr x)
      obtain out row' where x: "x = (out, row')"
        by (cases x) auto
      from pr Inr x
      have pr': "print_row t' st posX cols R pc g h i ftl True (take cols es) = Inr (out, row')"
        by simp
      from "1.IH" [OF True Inr x [symmetric] "1.prems"] True show ?thesis
        by (subst print_rows.simps, subst (2) print_rows.simps) (simp add: pr' Inr x)
    qed
  qed
qed

lemma calc_rowLen_style: "same_style t t' \<Longrightarrow> calc_rowLen t posX pc = calc_rowLen t' posX pc"
  by (simp add: calc_rowLen_def same_style_def)

lemma border_style:
  "same_style t t' \<Longrightarrow> border t x posX pc = border t' x posX pc"
  by (simp add: border_def same_style_def)


lemma same_style_head: "same_style (t\<lparr>head := es\<rparr>) t"
  by (simp add: same_style_def)














section \<open>Rendering twice\<close>

text \<open>
  The first pass over a row resets every write pointer it uses, so a render call does not
  depend on where the write pointers stand, and it changes nothing but them.
\<close>

lemma clear_cursor_fields:
  assumes "clear_cursor e = clear_cursor e'"
  shows "text' e = text' e'" and "textLen e = textLen e'"
    and "rowMaxTextLen e = rowMaxTextLen e'" and "ansiSeq e = ansiSeq e'"
    and "ansiSeqLen e = ansiSeqLen e'" and "e\<lparr>writeTxt := w\<rparr> = e'\<lparr>writeTxt := w\<rparr>"
proof -
  have "text' (clear_cursor e) = text' e" "textLen (clear_cursor e) = textLen e"
    "rowMaxTextLen (clear_cursor e) = rowMaxTextLen e" "ansiSeq (clear_cursor e) = ansiSeq e"
    "ansiSeqLen (clear_cursor e) = ansiSeqLen e" for e
    by (simp_all add: clear_cursor_def)
  with assms show "text' e = text' e'" and "textLen e = textLen e'"
    and "rowMaxTextLen e = rowMaxTextLen e'" and "ansiSeq e = ansiSeq e'"
    and "ansiSeqLen e = ansiSeqLen e'"
    by metis+
  have "(clear_cursor e)\<lparr>writeTxt := w\<rparr> = e\<lparr>writeTxt := w\<rparr>" for e
    by (simp add: clear_cursor_def)
  with assms show "e\<lparr>writeTxt := w\<rparr> = e'\<lparr>writeTxt := w\<rparr>"
    by metis
qed

lemma write_cell_first_cursor:
  assumes "clear_cursor e = clear_cursor e'"
  shows "write_cell t st cols i True j col e = write_cell t st cols i True j col e'"
proof -
  from clear_cursor_fields(1,6) [OF assms]
  have "e\<lparr>writeTxt := text' e\<rparr> = e'\<lparr>writeTxt := text' e'\<rparr>"
    by simp
  then show ?thesis
    by (simp add: write_cell_def)
qed

lemma write_cell_clear_cursor:
  assumes "write_cell t st cols i frpc j col e = (out, nl, e')"
  shows "clear_cursor e' = clear_cursor e"
  using assms
  by (auto simp: write_cell_def Let_def clear_cursor_def split: prod.splits if_splits)

lemma write_columns_first_cursor:
  assumes "map clear_cursor es = map clear_cursor es'" and "length es \<le> length pc"
  shows "write_columns t st cols i True j pc es = write_columns t st cols i True j pc es'"
  using assms
proof (induction t st cols i "True" j pc es arbitrary: es' rule: write_columns.induct)
  case (1 t st cols i j col pc e es)
  from "1.prems" obtain e' es1 where es': "es' = e' # es1"
    and e: "clear_cursor e = clear_cursor e'" and es: "map clear_cursor es = map clear_cursor es1"
    by (cases es') auto
  from "1.prems" have len: "length es \<le> length pc"
    by simp
  obtain o1 n1 e1 where w: "write_cell t st cols i True j col e = (o1, n1, e1)"
    by (cases "write_cell t st cols i True j col e") auto
  from "1.hyps" [OF w [symmetric] refl es len] w
    write_cell_first_cursor [OF e, of t st cols i j col]
  show ?case
    by (simp add: es')
next
  case (2 t st cols i j pc)
  then show ?case by simp
next
  case (3 t st cols i j v va)
  then show ?case by simp
qed

lemma write_columns_clear_cursor:
  "write_columns t st cols i frpc j pc es = (out, nl, es') \<Longrightarrow>
     map clear_cursor es' = map clear_cursor es"
proof (induction t st cols i frpc j pc es arbitrary: out nl es' rule: write_columns.induct)
  case (1 t st cols i frpc j col pc e es)
  obtain o1 n1 e1 where w: "write_cell t st cols i frpc j col e = (o1, n1, e1)"
    by (cases "write_cell t st cols i frpc j col e") auto
  obtain o2 n2 es2 where r: "write_columns t st cols i frpc (j + 1) pc es = (o2, n2, es2)"
    by (cases "write_columns t st cols i frpc (j + 1) pc es") auto
  from "1.IH" [OF w [symmetric] refl r] write_cell_clear_cursor [OF w] "1.prems" w r
  show ?case
    by auto
qed auto

lemma row_pass_first_cursor:
  assumes "map clear_cursor row = map clear_cursor row'" and "length row \<le> length pc"
  shows "row_pass t st posX cols R pc i True row = row_pass t st posX cols R pc i True row'"
  by (simp add: row_pass_def write_columns_first_cursor [OF assms])

lemma row_pass_clear_cursor:
  "row_pass t st posX cols R pc i frpc row = Inr (buf, nl, row') \<Longrightarrow>
     map clear_cursor row' = map clear_cursor row"
  by (auto simp: row_pass_def Let_def split: prod.splits if_splits
      dest: write_columns_clear_cursor)

lemma print_row_first_cursor:
  assumes "map clear_cursor row = map clear_cursor row'" and "length row \<le> length pc"
  shows "print_row t st posX cols R pc g h i ftl True row =
         print_row t st posX cols R pc g h i ftl True row'"
  by (subst print_row.simps, subst (2) print_row.simps)
    (simp add: row_pass_first_cursor [OF assms])

lemma print_row_clear_cursor:
  "print_row t st posX cols R pc g h i ftl frpc row = Inr (out, row') \<Longrightarrow>
     map clear_cursor row' = map clear_cursor row"
proof (induction t st posX cols R pc g h i ftl frpc row arbitrary: out row'
    rule: print_row.induct)
  case (1 t st posX cols R pc g h i ftl frpc row)
  from "1.prems" obtain buf nl row1 where
    rp: "row_pass t st posX cols R pc i frpc row = Inr (buf, nl, row1)"
    by (subst (asm) print_row.simps) (auto split: sum.splits)
  note c1 = row_pass_clear_cursor [OF rp]
  show ?case
  proof (cases nl)
    case False
    with "1.prems" rp c1 show ?thesis
      by (subst (asm) print_row.simps) (auto simp: Let_def)
  next
    case True
    with "1.prems" rp obtain outs where
      rec: "print_row t st posX cols R pc g h i False False row1 = Inr (outs, row')"
      by (subst (asm) print_row.simps) (auto simp: Let_def split: sum.splits)
    from "1.IH" [OF rp refl refl refl True rec] c1 show ?thesis
      by simp
  qed
qed

lemma print_rows_clear_cursor:
  "print_rows t st posX cols rows R pc g h i ftl es = Inr (out, es') \<Longrightarrow>
     map clear_cursor es' = map clear_cursor es"
proof (induction t st posX cols rows R pc g h i ftl es arbitrary: out es'
    rule: print_rows.induct)
  case (1 t st posX cols rows R pc g h i ftl es)
  show ?case
  proof (cases "i < rows")
    case False
    with "1.prems" show ?thesis
      by (subst (asm) print_rows.simps) simp
  next
    case True
    from "1.prems" True obtain o1 row1 outs es2 where
      p1: "print_row t st posX cols R pc g h i ftl True (take cols es) = Inr (o1, row1)"
      and p2: "print_rows t st posX cols rows R pc g h (i + 1) False (drop cols es) =
                 Inr (outs, es2)"
      and es': "es' = row1 @ es2"
      by (subst (asm) print_rows.simps) (auto split: sum.splits)
    from "1.IH" [OF True p1 refl p2] print_row_clear_cursor [OF p1]
    have "map clear_cursor (row1 @ es2) =
        map clear_cursor (take cols es) @ map clear_cursor (drop cols es)"
      by simp
    then show ?thesis
      by (simp add: es' flip: map_append)
  qed
qed

lemma print_rows_cursor:
  assumes "map clear_cursor es = map clear_cursor es'" and "cols \<le> length pc"
  shows "map_sum id fst (print_rows t st posX cols rows R pc g h i ftl es) =
         map_sum id fst (print_rows t st posX cols rows R pc g h i ftl es')"
  using assms
proof (induction t st posX cols rows R pc g h i ftl es arbitrary: es'
    rule: print_rows.induct)
  case (1 t st posX cols rows R pc g h i ftl es)
  show ?case
  proof (cases "i < rows")
    case False
    then show ?thesis
      by (subst print_rows.simps, subst (2) print_rows.simps) simp
  next
    case True
    from "1.prems" have tk: "map clear_cursor (take cols es) = map clear_cursor (take cols es')"
      and dr: "map clear_cursor (drop cols es) = map clear_cursor (drop cols es')"
      by (simp_all flip: take_map drop_map)
    from "1.prems" have "length (take cols es) \<le> length pc"
      by simp
    note pr = print_row_first_cursor [OF tk this, of t st posX cols R g h i ftl]
    show ?thesis
    proof (cases "print_row t st posX cols R pc g h i ftl True (take cols es)")
      case (Inl f)
      with pr have p': "print_row t st posX cols R pc g h i ftl True (take cols es') = Inl f"
        by simp
      show ?thesis
        by (subst print_rows.simps, subst (2) print_rows.simps) (simp add: Inl p')
    next
      case (Inr x)
      obtain o1 row1 where x: "x = (o1, row1)"
        by (cases x) auto
      from pr Inr x
      have p': "print_row t st posX cols R pc g h i ftl True (take cols es') = Inr (o1, row1)"
        by simp
      from "1.IH" [OF True Inr x [symmetric] dr "1.prems"(2)] show ?thesis
        by (subst print_rows.simps, subst (2) print_rows.simps)
          (auto simp: Inr x p' True split: sum.splits)
    qed
  qed
qed

lemma metrics_row_cursor:
  "map clear_cursor es = map clear_cursor es' \<Longrightarrow> metrics_row pc es = metrics_row pc es'"
proof (induction pc es arbitrary: es' rule: metrics_row.induct)
  case (1 col pc e es)
  then obtain e' es1 where es': "es' = e' # es1"
    and e: "clear_cursor e = clear_cursor e'" and es: "map clear_cursor es = map clear_cursor es1"
    by (cases es') auto
  from "1.IH" [OF es] clear_cursor_fields(3,5) [OF e] show ?case
    by (simp add: es')
next
  case (2 pc)
  then show ?case by simp
next
  case (3 v va)
  then show ?case by (cases es') auto
qed

lemma metrics_rows_cursor:
  "map clear_cursor es = map clear_cursor es' \<Longrightarrow>
     metrics_rows cols n pc es = metrics_rows cols n pc es'"
proof (induction cols n pc es arbitrary: es' rule: metrics_rows.induct)
  case (1 cols pc es)
  then show ?case by simp
next
  case (2 cols n pc es)
  from "2.prems" have tk: "map clear_cursor (take cols es) = map clear_cursor (take cols es')"
    and dr: "map clear_cursor (drop cols es) = map clear_cursor (drop cols es')"
    by (simp_all flip: take_map drop_map)
  from "2.IH" [OF dr] metrics_row_cursor [OF tk, of pc] show ?case
    by simp
qed

lemma render_run_cursor:
  assumes "map clear_cursor es' = map clear_cursor (head t)"
  shows "map_sum id observed (render_run (t\<lparr>head := es'\<rparr>) st posX cols rows) =
         map_sum id observed (render_run t st posX cols rows)"
proof -
  note s = same_style_head [where t = t and es = es']
  define pc where "pc = metrics_rows cols rows
      (replicate cols \<lparr>col_rowMaxTextLen = 0, col_ansiSeqMaxLen = 0\<rparr>) (head t)"
  have pc': "metrics_rows cols rows
      (replicate cols \<lparr>col_rowMaxTextLen = 0, col_ansiSeqMaxLen = 0\<rparr>) es' = pc"
    unfolding pc_def by (rule metrics_rows_cursor [OF assms])
  have len: "cols \<le> length pc"
    by (simp add: pc_def length_metrics_rows)
  from assms
  have tk: "map clear_cursor (take (rows * cols) es') =
      map clear_cursor (take (rows * cols) (head t))"
    by (simp flip: take_map)
  have f: "charGridX (t\<lparr>head := es'\<rparr>) = charGridX t"
    "charHeadX (t\<lparr>head := es'\<rparr>) = charHeadX t" "head (t\<lparr>head := es'\<rparr>) = es'"
    by simp_all
  from print_rows_cursor [OF tk len, of t st posX rows "calc_rowLen t posX pc"
      "border t (charGridX t) posX pc" "border t (charHeadX t) posX pc" 0 True]
  show ?thesis
    unfolding render_run_def Let_def print_rows_style [OF s] calc_rowLen_style [OF s]
      border_style [OF s] f pc' pc_def [symmetric]
    by (auto simp: observed_def split: sum.splits)
qed

lemma render_run_table_after:
  assumes "render_run t st posX cols rows = Inr r"
  shows "\<exists>es'. table_after r = Some (t\<lparr>head := es'\<rparr>) \<and>
           map clear_cursor es' = map clear_cursor (head t)"
proof -
  define pc where "pc = metrics_rows cols rows
      (replicate cols \<lparr>col_rowMaxTextLen = 0, col_ansiSeqMaxLen = 0\<rparr>) (head t)"
  from assms obtain out es1 where
    pr: "print_rows t st posX cols rows (calc_rowLen t posX pc) pc
           (border t (charGridX t) posX pc) (border t (charHeadX t) posX pc) 0 True
           (take (rows * cols) (head t)) = Inr (out, es1)"
    and r: "table_after r = Some (t\<lparr>head := es1 @ drop (rows * cols) (head t)\<rparr>)"
    unfolding render_run_def Let_def pc_def
    by (auto split: sum.splits)
  have "map clear_cursor (es1 @ drop (rows * cols) (head t)) =
      map clear_cursor (take (rows * cols) (head t) @ drop (rows * cols) (head t))"
    unfolding map_append print_rows_clear_cursor [OF pr] ..
  then have "map clear_cursor (es1 @ drop (rows * cols) (head t)) = map clear_cursor (head t)"
    by (simp only: append_take_drop_id)
  with r show ?thesis
    by blast
qed

lemma TextTablePrint_render_cursor:
  assumes "map clear_cursor es' = map clear_cursor (head t)"
  shows "map_sum id observed (TextTablePrint_render (t\<lparr>head := es'\<rparr>) st posX cols rows ms) =
         map_sum id observed (TextTablePrint_render t st posX cols rows ms)"
proof -
  obtain b1 ms1 where m1: "malloc ms = (b1, ms1)" by (cases "malloc ms") auto
  obtain b2 ms2 where m2: "malloc ms1 = (b2, ms2)" by (cases "malloc ms1") auto
  obtain b3 ms3 where m3: "malloc ms2 = (b3, ms3)" by (cases "malloc ms2") auto
  obtain b4 ms4 where m4: "malloc ms3 = (b4, ms4)" by (cases "malloc ms3") auto
  from assms have len: "length es' = length (head t)"
    by (metis length_map)
  from render_run_cursor [OF assms, of st posX cols rows] show ?thesis
    unfolding TextTablePrint_render_run
    by (cases b1; cases b2; cases b3; cases b4)
      (simp_all add: m1 m2 m3 m4 len observed_def)
qed

lemma TextTablePrint_render_table_after:
  assumes "TextTablePrint_render t st posX cols rows ms = Inr r"
  shows "\<exists>es'. table_after r = Some (t\<lparr>head := es'\<rparr>) \<and>
           map clear_cursor es' = map clear_cursor (head t)"
proof -
  obtain b1 ms1 where m1: "malloc ms = (b1, ms1)" by (cases "malloc ms") auto
  obtain b2 ms2 where m2: "malloc ms1 = (b2, ms2)" by (cases "malloc ms1") auto
  obtain b3 ms3 where m3: "malloc ms2 = (b3, ms3)" by (cases "malloc ms2") auto
  obtain b4 ms4 where m4: "malloc ms3 = (b4, ms4)" by (cases "malloc ms3") auto
  have same: "\<exists>es'. Some t = Some (t\<lparr>head := es'\<rparr>) \<and>
           map clear_cursor es' = map clear_cursor (head t)"
    by (rule exI [of _ "head t"]) simp
  from assms same render_run_table_after [of t st posX cols rows r] show ?thesis
    unfolding TextTablePrint_render_run
    by (cases b1; cases b2; cases b3; cases b4)
      (auto simp: m1 m2 m3 m4 split: if_splits)
qed

text \<open>
  Claim C6. When a render call returns (true or false), the same call on the table it
  leaves behind, with the same arguments and the same outcomes of the allocations,
  returns the same value, passes the same lines to the callback in the same order and
  leaves the same blocks allocated.
\<close>

theorem TextTablePrint_twice:
  assumes "TextTablePrint table callback tabStyle posX columns ms = Inr r"
  shows "\<exists>r'. TextTablePrint (table_after r) callback tabStyle posX columns ms = Inr r' \<and>
           retval r' = retval r \<and> calls r' = calls r \<and> leaked r' = leaked r"
proof (cases table)
  case None
  with assms show ?thesis
    by (auto simp: TextTablePrint_None)
next
  case (Some t)
  define guard where "guard \<longleftrightarrow> callback = None \<or> TEXT_TABLE_MAX_X_POS < posX \<or> columns = 0 \<or>
      entries t = 0 \<or> entries t \<noteq> entries t div columns * columns"
  show ?thesis
  proof (cases guard)
    case True
    with assms Some have "r = \<lparr>retval = False, calls = [], table_after = Some t, leaked = []\<rparr>"
      by (auto simp: TextTablePrint_Some guard_def)
    with assms Some show ?thesis
      by simp
  next
    case False
    with assms Some
    have r: "TextTablePrint_render t tabStyle posX columns (entries t div columns) ms = Inr r"
      by (simp add: TextTablePrint_Some guard_def)
    from TextTablePrint_render_table_after [OF r] obtain es' where
      ta: "table_after r = Some (t\<lparr>head := es'\<rparr>)"
      and cc: "map clear_cursor es' = map clear_cursor (head t)"
      by blast
    from False
    have "TextTablePrint (Some (t\<lparr>head := es'\<rparr>)) callback tabStyle posX columns ms =
        TextTablePrint_render (t\<lparr>head := es'\<rparr>) tabStyle posX columns
          (entries t div columns) ms"
      by (simp add: TextTablePrint_Some guard_def)
    with TextTablePrint_render_cursor [OF cc, of tabStyle posX columns
        "entries t div columns" ms] r
    have "map_sum id observed
        (TextTablePrint (Some (t\<lparr>head := es'\<rparr>)) callback tabStyle posX columns ms) =
        Inr (observed r)"
      by simp
    then show ?thesis
      unfolding ta
      by (cases "TextTablePrint (Some (t\<lparr>head := es'\<rparr>)) callback tabStyle posX columns ms")
        (auto simp: observed_def)
  qed
qed

theorem TextTablePrint_twice_witness:
  "TextTablePrint (Some example_table) (Some ()) TABSTYLE_REGULAR_HEAD_ON 0 2 [] =
     Inr \<lparr>retval = True,
          calls = [(HeadBuf, ''+======+=======+''),
                   (RowBuf, ''| H1   | H2    |''),
                   (HeadBuf, ''+======+=======+''),
                   (RowBuf, ''| R1C1 | R1C2  |''),
                   (RowBuf, ''|      | R1C2b |''),
                   (RowBuf, ''| R2C1 | R2C2  |''),
                   (GridBuf, ''+------+-------+'')],
          table_after = Some example_cursors_at_end, leaked = []\<rparr> \<and>
   (\<exists>r'. TextTablePrint (Some example_cursors_at_end) (Some ()) TABSTYLE_REGULAR_HEAD_ON 0 2 [] =
            Inr r' \<and>
          retval r' \<and>
          calls r' = [(HeadBuf, ''+======+=======+''),
                      (RowBuf, ''| H1   | H2    |''),
                      (HeadBuf, ''+======+=======+''),
                      (RowBuf, ''| R1C1 | R1C2  |''),
                      (RowBuf, ''|      | R1C2b |''),
                      (RowBuf, ''| R2C1 | R2C2  |''),
                      (GridBuf, ''+------+-------+'')] \<and>
          leaked r' = [])"
proof -
  have h: "TextTablePrint (Some example_table) (Some ()) TABSTYLE_REGULAR_HEAD_ON 0 2 [] =
     Inr \<lparr>retval = True,
          calls = [(HeadBuf, ''+======+=======+''),
                   (RowBuf, ''| H1   | H2    |''),
                   (HeadBuf, ''+======+=======+''),
                   (RowBuf, ''| R1C1 | R1C2  |''),
                   (RowBuf, ''|      | R1C2b |''),
                   (RowBuf, ''| R2C1 | R2C2  |''),
                   (GridBuf, ''+------+-------+'')],
          table_after = Some example_cursors_at_end, leaked = []\<rparr>"
    by code_simp
  from TextTablePrint_twice [OF h] h show ?thesis
    by simp
qed

end
